theory Spec2Isabelle
  imports Complex_Main "HOL-Library.Word"
begin

section \<open>Texts\<close>

text \<open>
  A Python \<^verbatim>\<open>str\<close> is a list of code points, and a code point is a natural number;
  \<open>lit\<close> gives the code points of a text written in ASCII.
\<close>

type_synonym str = "nat list"

definition lit :: "string \<Rightarrow> str" where
  "lit s = map of_char s"

text \<open>\<^verbatim>\<open>str.isspace\<close> of one code point.\<close>

definition isspace :: "nat \<Rightarrow> bool" where
  "isspace n =
     ((9 \<le> n \<and> n \<le> 13) \<or> (28 \<le> n \<and> n \<le> 32) \<or> n = 133 \<or> n = 160 \<or> n = 0x1680 \<or>
      (0x2000 \<le> n \<and> n \<le> 0x200A) \<or> n = 0x2028 \<or> n = 0x2029 \<or> n = 0x202F \<or> n = 0x205F \<or>
      n = 0x3000)"

text \<open>
  \<^verbatim>\<open>s.lower()\<close>. \<^verbatim>\<open>str.lower\<close> turns the capitals A to Z into a to z, U+0130 into
  \<^verbatim>\<open>i\<close> followed by U+0307, and U+212A into \<^verbatim>\<open>k\<close>. It leaves every other code point
  below 128 as it is, and turns every other code point from 128 on into one code point
  from 128 on. The program compares a lowered text with ASCII texts only, so here those
  other code points are left as they are: \<open>lower s\<close> and \<^verbatim>\<open>s.lower()\<close> have the same
  length and hold the same code point wherever either holds one below 128.
\<close>

definition lower_cp :: "nat \<Rightarrow> str" where
  "lower_cp c =
     (if 65 \<le> c \<and> c \<le> 90 then [c + 32]
      else if c = 0x130 then [0x69, 0x307]
      else if c = 0x212A then [0x6B]
      else [c])"

definition lower :: "str \<Rightarrow> str" where
  "lower s = concat (map lower_cp s)"

text \<open>\<^verbatim>\<open>s.startswith(p)\<close>\<close>

fun startswith :: "str \<Rightarrow> str \<Rightarrow> bool" where
  "startswith s [] = True"
| "startswith [] (p # ps) = False"
| "startswith (c # cs) (p # ps) = (c = p \<and> startswith cs ps)"

text \<open>\<^verbatim>\<open>sub in s\<close>: \<^verbatim>\<open>sub\<close> occurs in \<^verbatim>\<open>s\<close> as a contiguous run.\<close>

fun contains :: "str \<Rightarrow> str \<Rightarrow> bool" where
  "contains [] sub = (sub = [])"
| "contains (c # cs) sub = (startswith (c # cs) sub \<or> contains cs sub)"

text \<open>\<^verbatim>\<open>s.strip()\<close> and \<^verbatim>\<open>s.strip(chars)\<close>: both ends lose the characters of the class.\<close>

definition strip_where :: "(nat \<Rightarrow> bool) \<Rightarrow> str \<Rightarrow> str" where
  "strip_where P s = rev (dropWhile P (rev (dropWhile P s)))"

definition strip :: "str \<Rightarrow> str" where
  "strip s = strip_where isspace s"

definition strip_chars :: "str \<Rightarrow> str \<Rightarrow> str" where
  "strip_chars chars s = strip_where (\<lambda>c. c \<in> set chars) s"

text \<open>
  \<^verbatim>\<open>s.split(sep)\<close> for a one-character separator: every occurrence cuts, empty pieces
  are kept, and a text without the separator is one piece.
\<close>

fun split_sep :: "nat \<Rightarrow> str \<Rightarrow> str list" where
  "split_sep sep [] = [[]]"
| "split_sep sep (c # cs) =
     (if c = sep then [] # split_sep sep cs
      else (case split_sep sep cs of
              [] \<Rightarrow> [[c]]
            | p # ps \<Rightarrow> (c # p) # ps))"

text \<open>
  \<^verbatim>\<open>s.split()\<close>: the maximal runs of characters that are not whitespace, in order.
  \<open>split_run\<close> carries the run read so far.
\<close>

fun split_run :: "str \<Rightarrow> str \<Rightarrow> str list" where
  "split_run run [] = (if run = [] then [] else [run])"
| "split_run run (c # cs) =
     (if isspace c then (if run = [] then split_run [] cs else run # split_run [] cs)
      else split_run (run @ [c]) cs)"

definition split :: "str \<Rightarrow> str list" where
  "split s = split_run [] s"

text \<open>\<^verbatim>\<open>sep.join(xs)\<close>\<close>

fun join :: "str \<Rightarrow> str list \<Rightarrow> str" where
  "join sep [] = []"
| "join sep [x] = x"
| "join sep (x # y # ys) = x @ sep @ join sep (y # ys)"

text \<open>\<^verbatim>\<open>s.replace(c, r)\<close> for a one-character \<^verbatim>\<open>c\<close>.\<close>

definition replace_char :: "nat \<Rightarrow> str \<Rightarrow> str \<Rightarrow> str" where
  "replace_char c r s = concat (map (\<lambda>x. if x = c then r else [x]) s)"

definition apostrophe :: nat where
  "apostrophe = 0x27"

definition quotation_mark :: nat where
  "quotation_mark = 0x22"

definition line_feed :: nat where
  "line_feed = 0x0A"

definition semicolon :: nat where
  "semicolon = 0x3B"

text \<open>The numeric apostrophe entity \<^verbatim>\<open>&#39;\<close>.\<close>

definition apos_entity :: str where
  "apos_entity = lit ''&#39;''"

section \<open>The directive list of a Content-Security-Policy value\<close>

text \<open>
  Lines 149 to 171 of \<^verbatim>\<open>update_html.py\<close>, the part of \<^verbatim>\<open>adjust_csp_meta\<close> that
  works on the attribute value alone.

  \<^verbatim>\<open>directives = [d.strip() for d in decoded.split(';') if d.strip()]\<close>
\<close>

definition directives_of :: "str \<Rightarrow> str list" where
  "directives_of decoded =
     map strip (filter (\<lambda>d. strip d \<noteq> []) (split_sep semicolon decoded))"

text \<open>\<^verbatim>\<open>src.strip("'\"") == 'self'\<close>\<close>

definition is_self :: "str \<Rightarrow> bool" where
  "is_self src = (strip_chars [apostrophe, quotation_mark] src = lit ''self'')"

definition self_token :: str where
  "self_token = apostrophe # lit ''self'' @ [apostrophe]"

text \<open>\<^verbatim>\<open>d.lower().startswith('script-src')\<close>\<close>

definition is_script_src :: "str \<Rightarrow> bool" where
  "is_script_src d = startswith (lower d) (lit ''script-src'')"

text \<open>
  The sources of a directive, \<^verbatim>\<open>d.split()[1:]\<close>, and the list after
  \<^verbatim>\<open>if not any(src.strip("'\"") == 'self' for src in sources): sources.append("'self'")\<close>.
\<close>

definition sources_of :: "str \<Rightarrow> str list" where
  "sources_of d = drop 1 (split d)"

definition with_self :: "str list \<Rightarrow> str list" where
  "with_self sources = (if \<not> list_ex is_self sources then sources @ [self_token] else sources)"

text \<open>The branch of the loop for a script-src directive: what is appended to \<^verbatim>\<open>new_directives\<close>.\<close>

definition script_src_directive :: "str \<Rightarrow> str" where
  "script_src_directive d = lit ''script-src '' @ join (lit '' '') (with_self (sources_of d))"

text \<open>
  The loop over the directives, on the state (\<^verbatim>\<open>new_directives\<close>,
  \<^verbatim>\<open>script_src_found\<close>).
\<close>

fun directive_loop :: "str list \<Rightarrow> str list \<times> bool \<Rightarrow> str list \<times> bool" where
  "directive_loop [] state = state"
| "directive_loop (d # ds) (new_directives, script_src_found) =
     (if is_script_src d
      then directive_loop ds (new_directives @ [script_src_directive d], True)
      else directive_loop ds (new_directives @ [d], script_src_found))"

text \<open>
  \<^verbatim>\<open>new_directives\<close> after the loop and
  \<^verbatim>\<open>if not script_src_found: new_directives.append("script-src 'self'")\<close>.
\<close>

definition new_directives_of :: "str list \<Rightarrow> str list" where
  "new_directives_of directives =
     (case directive_loop directives ([], False) of
        (new_directives, script_src_found) \<Rightarrow>
          if \<not> script_src_found then new_directives @ [lit ''script-src '' @ self_token]
          else new_directives)"

text \<open>
  \<^verbatim>\<open>new_content\<close> as line 173 compares it. \<^verbatim>\<open>html.unescape\<close> belongs to the standard
  library, not to this program: it is the parameter \<open>unescape\<close>, and what is proved holds
  whatever it decodes.
\<close>

definition new_content_of :: "(str \<Rightarrow> str) \<Rightarrow> str \<Rightarrow> str" where
  "new_content_of unescape raw_content =
     (let decoded = unescape raw_content;
          directives = directives_of decoded;
          new_content = join (lit ''; '') (new_directives_of directives)
      in if contains raw_content apos_entity
         then replace_char apostrophe apos_entity new_content
         else new_content)"

text \<open>
  The decoding used in the examples: \<^verbatim>\<open>&#39;\<close> becomes an apostrophe and nothing else
  changes, which is what \<^verbatim>\<open>html.unescape\<close> returns for a text whose every ampersand
  starts \<^verbatim>\<open>&#39;\<close>.
\<close>

fun unescape_apos :: "str \<Rightarrow> str" where
  "unescape_apos [] = []"
| "unescape_apos (c # cs) =
     (if startswith (c # cs) apos_entity then apostrophe # unescape_apos (drop 4 cs)
      else c # unescape_apos cs)"

section \<open>The document tree\<close>

text \<open>
  The tree that \<^verbatim>\<open>BeautifulSoup(original_html, 'html.parser')\<close> builds: a tag has a name,
  its attributes (a dictionary, kept in insertion order) and its children; the other
  nodes are texts and comments. The \<^verbatim>\<open>BeautifulSoup\<close> object itself is the root, given
  here by the list of its children. An attribute value is a text; the operations below
  read the values of \<^verbatim>\<open>src\<close>, \<^verbatim>\<open>http-equiv\<close> and \<^verbatim>\<open>content\<close> only, which the parser
  keeps as texts.
\<close>

type_synonym attrs = "(str \<times> str) list"

datatype node =
    Tag str attrs "node list"
  | NavigableString str
  | Comment str

type_synonym soup = "node list"

text \<open>\<^verbatim>\<open>tag.has_attr(k)\<close>, \<^verbatim>\<open>tag[k]\<close> and \<^verbatim>\<open>tag[k] = v\<close> on the attribute dictionary.\<close>

definition has_attr :: "attrs \<Rightarrow> str \<Rightarrow> bool" where
  "has_attr a k = (map_of a k \<noteq> None)"

fun set_attr :: "str \<Rightarrow> str \<Rightarrow> attrs \<Rightarrow> attrs" where
  "set_attr k v [] = [(k, v)]"
| "set_attr k v ((k', v') # a) = (if k' = k then (k, v) # a else (k', v') # set_attr k v a)"

fun attrs_of :: "node \<Rightarrow> attrs" where
  "attrs_of (Tag n a cs) = a"
| "attrs_of (NavigableString s) = []"
| "attrs_of (Comment s) = []"

text \<open>All nodes below the root in document order, as \<^verbatim>\<open>find\<close> and \<^verbatim>\<open>find_all\<close> visit them.\<close>

fun nodes_of :: "node \<Rightarrow> node list" where
  "nodes_of (Tag n a cs) = Tag n a cs # concat (map nodes_of cs)"
| "nodes_of (NavigableString s) = [NavigableString s]"
| "nodes_of (Comment s) = [Comment s]"

definition descendants :: "soup \<Rightarrow> node list" where
  "descendants soup = concat (map nodes_of soup)"

definition soup_find :: "(node \<Rightarrow> bool) \<Rightarrow> soup \<Rightarrow> node option" where
  "soup_find P soup = find P (descendants soup)"

definition soup_find_all :: "(node \<Rightarrow> bool) \<Rightarrow> soup \<Rightarrow> node list" where
  "soup_find_all P soup = filter P (descendants soup)"

text \<open>
  A mutation of the tag that \<^verbatim>\<open>find\<close> returned: \<open>f\<close> is applied to the first node in
  document order that satisfies \<open>P\<close>, and nothing below the changed node is visited.
\<close>

fun update_first_node :: "(node \<Rightarrow> bool) \<Rightarrow> (node \<Rightarrow> node) \<Rightarrow> node \<Rightarrow> node option"
  and update_first_nodes :: "(node \<Rightarrow> bool) \<Rightarrow> (node \<Rightarrow> node) \<Rightarrow> node list \<Rightarrow> node list option" where
  "update_first_node P f (Tag n a cs) =
     (if P (Tag n a cs) then Some (f (Tag n a cs))
      else map_option (Tag n a) (update_first_nodes P f cs))"
| "update_first_node P f (NavigableString s) =
     (if P (NavigableString s) then Some (f (NavigableString s)) else None)"
| "update_first_node P f (Comment s) =
     (if P (Comment s) then Some (f (Comment s)) else None)"
| "update_first_nodes P f [] = None"
| "update_first_nodes P f (c # cs) =
     (case update_first_node P f c of
        Some c' \<Rightarrow> Some (c' # cs)
      | None \<Rightarrow> map_option ((#) c) (update_first_nodes P f cs))"

definition update_first :: "(node \<Rightarrow> bool) \<Rightarrow> (node \<Rightarrow> node) \<Rightarrow> soup \<Rightarrow> soup" where
  "update_first P f soup = (case update_first_nodes P f soup of Some soup' \<Rightarrow> soup' | None \<Rightarrow> soup)"

text \<open>
  A pattern \<^verbatim>\<open>^literal$\<close> compiled with \<^verbatim>\<open>re.IGNORECASE\<close> and applied with \<^verbatim>\<open>search\<close>, as
  \<^verbatim>\<open>find\<close> applies a compiled pattern to an attribute value: the literal is matched at
  the start, letter case apart, and \<^verbatim>\<open>$\<close> matches at the end of the value or just
  before a line feed that ends it.

  \<open>ci_eq p c\<close> says that the pattern character \<open>p\<close>, a code point below 128, matches
  the code point \<open>c\<close> under \<^verbatim>\<open>re.IGNORECASE\<close>: \<open>c\<close> is \<open>p\<close> in either letter case, or
  \<open>p\<close> is \<^verbatim>\<open>i\<close> and \<open>c\<close> is U+0130 or U+0131, or \<open>p\<close> is \<^verbatim>\<open>s\<close> and \<open>c\<close> is U+017F,
  or \<open>p\<close> is \<^verbatim>\<open>k\<close> and \<open>c\<close> is U+212A.
\<close>

definition ci_eq :: "nat \<Rightarrow> nat \<Rightarrow> bool" where
  "ci_eq p c =
     (let q = (if 65 \<le> p \<and> p \<le> 90 then p + 32 else p) in
      c = q \<or> (97 \<le> q \<and> q \<le> 122 \<and> c + 32 = q) \<or>
      (q = 0x69 \<and> (c = 0x130 \<or> c = 0x131)) \<or>
      (q = 0x73 \<and> c = 0x17F) \<or>
      (q = 0x6B \<and> c = 0x212A))"

fun match_ci :: "str \<Rightarrow> str \<Rightarrow> str option" where
  "match_ci [] s = Some s"
| "match_ci (p # ps) [] = None"
| "match_ci (p # ps) (c # cs) = (if ci_eq p c then match_ci ps cs else None)"

definition at_end :: "str \<Rightarrow> bool" where
  "at_end rest = (rest = [] \<or> rest = [line_feed])"

definition search_anchored :: "str \<Rightarrow> str \<Rightarrow> bool" where
  "search_anchored literal v = (case match_ci literal v of Some rest \<Rightarrow> at_end rest | None \<Rightarrow> False)"

definition preview_path :: str where
  "preview_path = lit ''/preview.js''"

text \<open>\<^verbatim>\<open>re.compile(r'^/preview\.js$', re.IGNORECASE)\<close>\<close>

definition src_re :: "str \<Rightarrow> bool" where
  "src_re v = search_anchored preview_path v"

text \<open>\<^verbatim>\<open>re.compile(r'^(Content-Security-Policy|X-Content-Security-Policy)$', re.IGNORECASE)\<close>\<close>

definition http_equiv_re :: "str \<Rightarrow> bool" where
  "http_equiv_re v =
     (search_anchored (lit ''Content-Security-Policy'') v \<or> search_anchored (lit ''X-Content-Security-Policy'') v)"

text \<open>The tags the three searches select.\<close>

fun is_preview_script :: "node \<Rightarrow> bool" where
  "is_preview_script (Tag n a cs) =
     (n = lit ''script'' \<and> (case map_of a (lit ''src'') of Some v \<Rightarrow> src_re v | None \<Rightarrow> False))"
| "is_preview_script (NavigableString s) = False"
| "is_preview_script (Comment s) = False"

fun is_named :: "str \<Rightarrow> node \<Rightarrow> bool" where
  "is_named name (Tag n a cs) = (n = name)"
| "is_named name (NavigableString s) = False"
| "is_named name (Comment s) = False"

fun is_csp_meta :: "node \<Rightarrow> bool" where
  "is_csp_meta (Tag n a cs) =
     (n = lit ''meta'' \<and> (case map_of a (lit ''http-equiv'') of Some v \<Rightarrow> http_equiv_re v | None \<Rightarrow> False))"
| "is_csp_meta (NavigableString s) = False"
| "is_csp_meta (Comment s) = False"

fun is_comment :: "node \<Rightarrow> bool" where
  "is_comment (Comment s) = True"
| "is_comment (Tag n a cs) = False"
| "is_comment (NavigableString s) = False"

text \<open>
  The value of an attribute in the tree, for the value as the file writes it: the parser
  (the standard library's \<^verbatim>\<open>HTMLParser\<close>, under \<^verbatim>\<open>'html.parser'\<close>) decodes the character
  references of every attribute value with \<^verbatim>\<open>html.unescape\<close> before the tree is built.
\<close>

definition parsed_attribute :: "(str \<Rightarrow> str) \<Rightarrow> str \<Rightarrow> str" where
  "parsed_attribute unescape written = unescape written"

text \<open>\<^verbatim>\<open>tag.append(child)\<close> and \<^verbatim>\<open>tag[k] = v\<close> on a node.\<close>

fun append_child :: "node \<Rightarrow> node \<Rightarrow> node" where
  "append_child child (Tag n a cs) = Tag n a (cs @ [child])"
| "append_child child (NavigableString s) = NavigableString s"
| "append_child child (Comment s) = Comment s"

fun set_tag_attr :: "str \<Rightarrow> str \<Rightarrow> node \<Rightarrow> node" where
  "set_tag_attr k v (Tag n a cs) = Tag n (set_attr k v a) cs"
| "set_tag_attr k v (NavigableString s) = NavigableString s"
| "set_tag_attr k v (Comment s) = Comment s"

section \<open>The operations on the tree\<close>

text \<open>
  Each operation returns the tree as it leaves it together with the flag it returns.

  \<^verbatim>\<open>ensure_script\<close>, lines 102 to 112. \<^verbatim>\<open>soup.body\<close> is \<^verbatim>\<open>soup.find('body')\<close>, and a tag
  is always true as a condition.
\<close>

definition new_tag :: node where
  "new_tag = Tag (lit ''script'') [(lit ''src'', lit ''/preview.js'')] []"

definition ensure_script :: "soup \<Rightarrow> soup \<times> bool" where
  "ensure_script soup =
     (if soup_find is_preview_script soup \<noteq> None then (soup, False)
      else if soup_find (is_named (lit ''body'')) soup \<noteq> None
      then (update_first (is_named (lit ''body'')) (append_child new_tag) soup, True)
      else (soup @ [new_tag], True))"

text \<open>
  \<^verbatim>\<open>add_target_blank\<close>, lines 115 to 124: the loop over \<^verbatim>\<open>soup.find_all('a')\<close>, as a
  traversal that does the loop body at every tag named \<^verbatim>\<open>a\<close>.
\<close>

definition harden :: "attrs \<Rightarrow> attrs" where
  "harden a = set_attr (lit ''rel'') (lit ''noopener noreferrer'') (set_attr (lit ''target'') (lit ''_blank'') a)"

fun add_target_blank_node :: "node \<Rightarrow> node \<times> bool"
  and add_target_blank_nodes :: "node list \<Rightarrow> node list \<times> bool" where
  "add_target_blank_node (Tag n a cs) =
     (case add_target_blank_nodes cs of
        (cs', changed) \<Rightarrow>
          if n = lit ''a'' \<and> \<not> has_attr a (lit ''target'') then (Tag n (harden a) cs', True)
          else (Tag n a cs', changed))"
| "add_target_blank_node (NavigableString s) = (NavigableString s, False)"
| "add_target_blank_node (Comment s) = (Comment s, False)"
| "add_target_blank_nodes [] = ([], False)"
| "add_target_blank_nodes (c # cs) =
     (case add_target_blank_node c of
        (c', changed) \<Rightarrow>
          (case add_target_blank_nodes cs of
             (cs', changed') \<Rightarrow> (c' # cs', changed \<or> changed')))"

definition add_target_blank :: "soup \<Rightarrow> soup \<times> bool" where
  "add_target_blank soup = add_target_blank_nodes soup"

text \<open>
  \<^verbatim>\<open>adjust_body\<close>, line 129: \<^verbatim>\<open>return ensure_script(soup) or add_target_blank(soup)\<close>.
  Python's \<^verbatim>\<open>or\<close> evaluates its right operand only when the left one is false.
\<close>

definition adjust_body :: "soup \<Rightarrow> soup \<times> bool" where
  "adjust_body soup =
     (case ensure_script soup of
        (soup', script_changed) \<Rightarrow>
          if script_changed then (soup', True) else add_target_blank soup')"

text \<open>\<^verbatim>\<open>adjust_csp_meta\<close>, lines 132 to 177.\<close>

definition adjust_csp_meta :: "(str \<Rightarrow> str) \<Rightarrow> soup \<Rightarrow> soup \<times> bool" where
  "adjust_csp_meta unescape soup =
     (case soup_find is_csp_meta soup of
        None \<Rightarrow> (soup, False)
      | Some meta \<Rightarrow>
          (case map_of (attrs_of meta) (lit ''content'') of
             None \<Rightarrow> (soup, False)
           | Some raw_content \<Rightarrow>
               (let new_content = new_content_of unescape raw_content in
                if new_content = raw_content then (soup, False)
                else (update_first is_csp_meta (set_tag_attr (lit ''content'') new_content) soup, True))))"

text \<open>
  The comments are taken out of the tree, lines 187 and 188:
  \<^verbatim>\<open>for comment in soup.find_all(string=lambda text: isinstance(text, Comment)): comment.extract()\<close>
\<close>

fun extract_comments_node :: "node \<Rightarrow> node" where
  "extract_comments_node (Tag n a cs) =
     Tag n a (map extract_comments_node (filter (\<lambda>c. \<not> is_comment c) cs))"
| "extract_comments_node (NavigableString s) = NavigableString s"
| "extract_comments_node (Comment s) = Comment s"

definition extract_comments :: "soup \<Rightarrow> soup" where
  "extract_comments soup = map extract_comments_node (filter (\<lambda>c. \<not> is_comment c) soup)"

text \<open>
  \<^verbatim>\<open>process_file\<close>, lines 180 to 198, from the parsed tree on. The result says whether
  \<^verbatim>\<open>write_file_utf8\<close> is called, and with which tree: \<^verbatim>\<open>prettify\<close> and the parser are
  the library's, so a file is identified with the tree it holds.
\<close>

datatype outcome = Updated soup | Unchanged

definition process_file :: "(str \<Rightarrow> str) \<Rightarrow> soup \<Rightarrow> outcome" where
  "process_file unescape parsed =
     (case adjust_body (extract_comments parsed) of
        (soup, body_changed) \<Rightarrow>
          (case adjust_csp_meta unescape soup of
             (soup', csp_changed) \<Rightarrow>
               if body_changed \<or> csp_changed then Updated soup' else Unchanged))"

text \<open>The tree a file holds after \<^verbatim>\<open>process_file\<close> has run on it.\<close>

definition file_after :: "(str \<Rightarrow> str) \<Rightarrow> soup \<Rightarrow> soup" where
  "file_after unescape parsed =
     (case process_file unescape parsed of Updated soup \<Rightarrow> soup | Unchanged \<Rightarrow> parsed)"

section \<open>Reading a file\<close>

text \<open>
  \<^verbatim>\<open>read_file_smart\<close>, lines 56 to 78, from the bytes of the file on. The codecs are the
  standard library's: \<open>decode lib enc raw\<close> is \<^verbatim>\<open>raw.decode(enc)\<close>, with \<open>None\<close> when it
  raises, and \<open>decode_replace lib raw\<close> is \<^verbatim>\<open>raw.decode('utf-8', errors='replace')\<close>.

  Lines 41 to 53 bind \<^verbatim>\<open>detect_encoding\<close> in one of three ways: to
  \<^verbatim>\<open>charset_normalizer.from_bytes\<close>, whose result is a \<^verbatim>\<open>CharsetMatches\<close> object and has no
  method \<^verbatim>\<open>get\<close>; to a wrapper of \<^verbatim>\<open>chardet.detect\<close>, whose result is a dictionary with
  the guessed encoding (or \<^verbatim>\<open>None\<close>) and a confidence; or to \<^verbatim>\<open>None\<close>.
\<close>

type_synonym bytes = "8 word list"

datatype detector =
    From_bytes
  | Chardet_detect "bytes \<Rightarrow> str option \<times> rat"
  | No_detector

record library =
  decode :: "str \<Rightarrow> bytes \<Rightarrow> str option"
  decode_replace :: "bytes \<Rightarrow> str"
  detect_encoding :: detector

datatype error = AttributeError

definition read_file_smart :: "library \<Rightarrow> bytes \<Rightarrow> error + str" where
  "read_file_smart lib raw =
     (case decode lib (lit ''utf-8'') raw of
        Some text \<Rightarrow> Inr text
      | None \<Rightarrow>
          (case detect_encoding lib of
             No_detector \<Rightarrow> Inr (decode_replace lib raw)
           | From_bytes \<Rightarrow> Inl AttributeError
           | Chardet_detect detect \<Rightarrow>
               (case detect raw of
                  (None, conf) \<Rightarrow> Inr (decode_replace lib raw)
                | (Some enc, conf) \<Rightarrow>
                    if enc \<noteq> [] \<and> conf > 1 / 2
                    then (case decode lib enc raw of
                            Some text \<Rightarrow> Inr text
                          | None \<Rightarrow> Inr (decode_replace lib raw))
                    else Inr (decode_replace lib raw))))"

section \<open>Notions the statements use\<close>

text \<open>A node without its children: its kind, and the name and attributes of a tag.\<close>

fun label :: "node \<Rightarrow> node" where
  "label (Tag n a cs) = Tag n a []"
| "label (NavigableString s) = NavigableString s"
| "label (Comment s) = Comment s"

definition local_pred :: "(node \<Rightarrow> bool) \<Rightarrow> bool" where
  "local_pred P = (\<forall>x. P x = P (label x))"

text \<open>The tree with the attributes of every tag replaced by \<open>g name attributes\<close>.\<close>

fun map_attrs_node :: "(str \<Rightarrow> attrs \<Rightarrow> attrs) \<Rightarrow> node \<Rightarrow> node" where
  "map_attrs_node g (Tag n a cs) = Tag n (g n a) (map (map_attrs_node g) cs)"
| "map_attrs_node g (NavigableString s) = NavigableString s"
| "map_attrs_node g (Comment s) = Comment s"

text \<open>What link hardening does to the attributes of one tag.\<close>

definition harden_anchor :: "str \<Rightarrow> attrs \<Rightarrow> attrs" where
  "harden_anchor n a = (if n = lit ''a'' \<and> \<not> has_attr a (lit ''target'') then harden a else a)"

fun lacks_target :: "node \<Rightarrow> bool" where
  "lacks_target (Tag n a cs) = (n = lit ''a'' \<and> \<not> has_attr a (lit ''target''))"
| "lacks_target (NavigableString s) = False"
| "lacks_target (Comment s) = False"

text \<open>What the loop over the directives does to one directive.\<close>

definition rewrite_directive :: "str \<Rightarrow> str" where
  "rewrite_directive d = (if is_script_src d then script_src_directive d else d)"

text \<open>A token: a non-empty text without whitespace.\<close>

definition token :: "str \<Rightarrow> bool" where
  "token w = (w \<noteq> [] \<and> list_all (\<lambda>c. \<not> isspace c) w)"

text \<open>The \<^verbatim>\<open>content\<close> attribute of the tag that \<^verbatim>\<open>adjust_csp_meta\<close> looks up.\<close>

definition csp_content :: "soup \<Rightarrow> str option" where
  "csp_content soup =
     (case soup_find is_csp_meta soup of
        None \<Rightarrow> None
      | Some meta \<Rightarrow> map_of (attrs_of meta) (lit ''content''))"

text \<open>A directive as the list holds it: not empty and without a semicolon.\<close>

definition directive_ok :: "str \<Rightarrow> bool" where
  "directive_ok d = (d \<noteq> [] \<and> semicolon \<notin> set d)"

text \<open>No comment is left anywhere in the tree.\<close>

definition no_comments :: "soup \<Rightarrow> bool" where
  "no_comments soup = list_all (\<lambda>x. \<not> is_comment x) (descendants soup)"

text \<open>
  A value matches a literal under \<^verbatim>\<open>re.IGNORECASE\<close>: the same length, and code point by
  code point the same, letter case apart, in the sense of \<open>ci_eq\<close>.
\<close>

definition matches_ci :: "str \<Rightarrow> str \<Rightarrow> bool" where
  "matches_ci literal v = list_all2 ci_eq literal v"

text \<open>
  Two readings that follow the words of the specification rather than the code: a
  directive named \<^verbatim>\<open>script-src\<close> is one whose first token is that name, letter case
  apart; a script tag for the preview script is one whose \<^verbatim>\<open>src\<close> equals the fixed
  path, letter case apart.
\<close>

definition spec_named_script_src :: "str \<Rightarrow> bool" where
  "spec_named_script_src d =
     (case split d of [] \<Rightarrow> False | name # sources \<Rightarrow> lower name = lit ''script-src'')"

fun spec_preview_script :: "node \<Rightarrow> bool" where
  "spec_preview_script (Tag n a cs) =
     (n = lit ''script'' \<and> (case map_of a (lit ''src'') of Some v \<Rightarrow> lower v = lower preview_path | None \<Rightarrow> False))"
| "spec_preview_script (NavigableString s) = False"
| "spec_preview_script (Comment s) = False"

section \<open>Example documents\<close>

text \<open>\<^verbatim>\<open><body><a href="x">l</a></body>\<close>, and the same file after one and after two runs.\<close>

definition page_link :: soup where
  "page_link = [Tag (lit ''body'') [] [Tag (lit ''a'') [(lit ''href'', lit ''x'')] [NavigableString (lit ''l'')]]]"

definition page_link_once :: soup where
  "page_link_once =
     [Tag (lit ''body'') []
        [Tag (lit ''a'') [(lit ''href'', lit ''x'')] [NavigableString (lit ''l'')],
         Tag (lit ''script'') [(lit ''src'', lit ''/preview.js'')] []]]"

definition page_link_twice :: soup where
  "page_link_twice =
     [Tag (lit ''body'') []
        [Tag (lit ''a'') [(lit ''href'', lit ''x''), (lit ''target'', lit ''_blank''), (lit ''rel'', lit ''noopener noreferrer'')]
           [NavigableString (lit ''l'')],
         Tag (lit ''script'') [(lit ''src'', lit ''/preview.js'')] []]]"

text \<open>
  A document whose head holds a policy tag with the given \<^verbatim>\<open>content\<close>. Then policies:
  one as a file writes it, with \<^verbatim>\<open>&#39;\<close> for every apostrophe, and the value the tree
  holds for it; one that has \<^verbatim>\<open>'self'\<close> and is written with single spaces, and the same
  with two spaces after the name; one with the directive \<^verbatim>\<open>script-src-elem\<close>, alone and
  beside a \<^verbatim>\<open>script-src\<close> directive; one with spaces and empty pieces.
\<close>

definition csp_page :: "str \<Rightarrow> soup" where
  "csp_page v =
     [Tag (lit ''head'') [] [Tag (lit ''meta'') [(lit ''http-equiv'', lit ''Content-Security-Policy''), (lit ''content'', v)] []]]"

definition csp_entity_written :: str where
  "csp_entity_written = lit ''default-src &#39;none&#39;''"

definition csp_entity_parsed :: str where
  "csp_entity_parsed = lit ''default-src '' @ [apostrophe] @ lit ''none'' @ [apostrophe]"

definition csp_self_value :: str where
  "csp_self_value = lit ''script-src '' @ self_token @ lit '' https://x.com''"

definition csp_double_space_value :: str where
  "csp_double_space_value = lit ''script-src  '' @ self_token"

definition csp_elem_value :: str where
  "csp_elem_value = lit ''script-src-elem https://x.com''"

definition csp_elem_pair_value :: str where
  "csp_elem_pair_value = lit ''script-src-elem https://x.com; script-src https://y.com''"

definition csp_spaced_value :: str where
  "csp_spaced_value = lit '' default-src https: ;; img-src *; ''"

text \<open>
  A document whose only node is a script tag with the path and a line feed as \<^verbatim>\<open>src\<close>,
  one whose script tag has the path with U+0130 for its \<^verbatim>\<open>i\<close>, and a document without
  tags.
\<close>

definition page_script_newline :: soup where
  "page_script_newline = [Tag (lit ''script'') [(lit ''src'', lit ''/preview.js'' @ [line_feed])] []]"

definition page_script_dotted :: soup where
  "page_script_dotted = [Tag (lit ''script'') [(lit ''src'', lit ''/prev'' @ [0x130] @ lit ''ew.js'')] []]"

definition page_no_body :: soup where
  "page_no_body = [NavigableString (lit ''hi'')]"

text \<open>
  Two documents with comments: one that has the script and no link to harden, and one
  that has neither script nor body.
\<close>

definition page_commented :: soup where
  "page_commented =
     [Comment (lit ''top''),
      Tag (lit ''body'') []
        [Comment (lit ''inner''),
         Tag (lit ''a'') [(lit ''href'', lit ''x''), (lit ''target'', lit ''_self'')] [],
         Tag (lit ''script'') [(lit ''src'', lit ''/preview.js'')] []]]"

definition page_commented_link :: soup where
  "page_commented_link = [Comment (lit ''top''), Tag (lit ''p'') [] [Comment (lit ''inner''), NavigableString (lit ''t'')]]"

text \<open>
  A small codec library for the examples: strict decoding accepts the bytes below 128
  only, lossy decoding puts U+FFFD for every other byte, and
  \<^verbatim>\<open>detect_encoding\<close> is \<^verbatim>\<open>charset_normalizer.from_bytes\<close>.
\<close>

definition ascii_decode :: "str \<Rightarrow> bytes \<Rightarrow> str option" where
  "ascii_decode enc raw =
     (if list_all (\<lambda>b. b < 128) raw then Some (map (\<lambda>b. unat b) raw) else None)"

definition question_marks :: "bytes \<Rightarrow> str" where
  "question_marks raw = map (\<lambda>b. if b < 128 then unat b else 0xFFFD) raw"

definition library_from_bytes :: library where
  "library_from_bytes =
     \<lparr>decode = ascii_decode, decode_replace = question_marks, detect_encoding = From_bytes\<rparr>"

section \<open>Texts and directives: auxiliary facts\<close>

lemma lit_Nil [simp]: "lit [] = []"
  by (simp add: lit_def)

lemma lit_Cons [simp]: "lit (c # cs) = of_char c # lit cs"
  by (simp add: lit_def)

lemma replace_char_free: "c \<notin> set r \<Longrightarrow> c \<notin> set (replace_char c r s)"
  by (induction s) (auto simp: replace_char_def)

lemma directive_loop_eq:
  "directive_loop ds (acc, found) = (acc @ map rewrite_directive ds, found \<or> list_ex is_script_src ds)"
  by (induction ds arbitrary: acc found) (simp_all add: rewrite_directive_def)

lemma new_directives_of_eq:
  "new_directives_of ds =
     (if list_ex is_script_src ds then map rewrite_directive ds else ds @ [lit ''script-src '' @ self_token])"
proof -
  have "\<not> list_ex is_script_src ds \<Longrightarrow> map rewrite_directive ds = ds"
    by (induction ds) (simp_all add: rewrite_directive_def)
  then show ?thesis
    by (simp add: new_directives_of_def directive_loop_eq)
qed

lemma split_run_tokens:
  "list_all (\<lambda>c. \<not> isspace c) run \<Longrightarrow> list_all token (split_run run s)"
  by (induction s arbitrary: run) (auto simp: token_def)

lemma split_tokens: "list_all token (split s)"
  by (simp add: split_def split_run_tokens)

lemma split_run_word:
  "list_all (\<lambda>c. \<not> isspace c) w \<Longrightarrow> split_run run (w @ rest) = split_run (run @ w) rest"
  by (induction w arbitrary: run) simp_all

lemma split_run_join:
  "list_all token ws \<Longrightarrow> token w \<Longrightarrow> split_run [] (join (lit '' '') (w # ws)) = w # ws"
proof (induction ws arbitrary: w)
  case Nil
  then show ?case using split_run_word [of w "[]" "[]"] by (simp add: token_def)
next
  case (Cons y ys)
  have "split_run [] (w @ lit '' '' @ join (lit '' '') (y # ys)) = split_run w (lit '' '' @ join (lit '' '') (y # ys))"
    using Cons.prems split_run_word [of w "[]"] by (simp add: token_def)
  also have "\<dots> = w # split_run [] (join (lit '' '') (y # ys))"
    using Cons.prems by (simp add: token_def isspace_def)
  finally show ?case using Cons by simp
qed

lemma split_join: "list_all token ws \<Longrightarrow> split (join (lit '' '') ws) = ws"
  by (cases ws) (simp_all add: split_def split_run_join [simplified])

lemma token_self: "token self_token"
  by (simp add: token_def self_token_def apostrophe_def isspace_def)

lemma is_self_self_token: "is_self self_token"
  by (simp add: is_self_def self_token_def strip_chars_def strip_where_def apostrophe_def quotation_mark_def)

lemma with_self_tokens: "list_all token ws \<Longrightarrow> list_all token (with_self ws)"
  by (simp add: with_self_def token_self)

lemma with_self_has_self: "list_ex is_self (with_self ws)"
  by (simp add: with_self_def is_self_self_token)

lemma sources_tokens: "list_all token (sources_of d)"
  using split_tokens [of d] by (cases "split d") (simp_all add: sources_of_def)

lemma split_script_src_directive:
  "split (script_src_directive d) = lit ''script-src'' # with_self (sources_of d)"
proof -
  have t: "token (lit ''script-src'')" by (simp add: token_def isspace_def)
  have "with_self (sources_of d) \<noteq> []"
    using with_self_has_self [of "sources_of d"] by auto
  then have "script_src_directive d = join (lit '' '') (lit ''script-src'' # with_self (sources_of d))"
    by (cases "with_self (sources_of d)") (simp_all add: script_src_directive_def)
  then show ?thesis
    using split_run_join [OF with_self_tokens [OF sources_tokens] t] by (simp add: split_def)
qed

lemma script_src_directive_is_script_src: "is_script_src (script_src_directive d)"
  by (simp add: is_script_src_def script_src_directive_def lower_def lower_cp_def)

section \<open>The tree: auxiliary facts\<close>

lemma find_append: "find P (xs @ ys) = (case find P xs of None \<Rightarrow> find P ys | Some x \<Rightarrow> Some x)"
  by (induction xs) simp_all

lemma local_Tag: "local_pred P \<Longrightarrow> P (Tag n a cs) = P (Tag n a cs')"
  unfolding local_pred_def by (metis label.simps(1))

lemma update_first_None:
  "(update_first_node P f nd = None) = (find P (nodes_of nd) = None)"
  "(update_first_nodes P f cs = None) = (find P (concat (map nodes_of cs)) = None)"
  by (induction P f nd and P f cs rule: update_first_node_update_first_nodes.induct)
     (auto simp: find_append split: option.splits)

lemma update_first_nodes_None_iff:
  "(update_first_nodes P f soup = None) = (soup_find P soup = None)"
  by (simp add: update_first_None soup_find_def descendants_def)

lemma find_nodes_of_self: "P y \<Longrightarrow> find P (nodes_of y) = Some y"
  by (cases y) simp_all

lemma update_first_find:
  "local_pred P \<Longrightarrow> \<forall>x. P x \<longrightarrow> P (f x) \<Longrightarrow> find P (nodes_of nd) = Some x \<Longrightarrow>
     (\<exists>nd'. update_first_node P f nd = Some nd' \<and> find P (nodes_of nd') = Some (f x))"
  "local_pred P \<Longrightarrow> \<forall>x. P x \<longrightarrow> P (f x) \<Longrightarrow> find P (concat (map nodes_of cs)) = Some x \<Longrightarrow>
     (\<exists>cs'. update_first_nodes P f cs = Some cs' \<and> find P (concat (map nodes_of cs')) = Some (f x))"
proof (induction P f nd and P f cs arbitrary: x and x rule: update_first_node_update_first_nodes.induct)
  case (1 P f n a cs)
  show ?case
  proof (cases "P (Tag n a cs)")
    case True
    with "1.prems" have "x = Tag n a cs" by simp
    moreover have "find P (nodes_of (f (Tag n a cs))) = Some (f (Tag n a cs))"
      by (rule find_nodes_of_self) (use True "1.prems"(2) in blast)
    ultimately show ?thesis using True by simp
  next
    case False
    with 1 obtain cs' where "update_first_nodes P f cs = Some cs'"
      "find P (concat (map nodes_of cs')) = Some (f x)" by auto
    moreover have "\<not> P (Tag n a cs')" using False local_Tag [OF "1.prems"(1)] by blast
    ultimately show ?thesis using False by simp
  qed
next
  case (2 P f s)
  then have "P (NavigableString s)" and "x = NavigableString s" by (auto split: if_splits)
  moreover have "find P (nodes_of (f (NavigableString s))) = Some (f (NavigableString s))"
    by (rule find_nodes_of_self) (use calculation "2.prems"(2) in blast)
  ultimately show ?case by simp
next
  case (3 P f s)
  then have "P (Comment s)" and "x = Comment s" by (auto split: if_splits)
  moreover have "find P (nodes_of (f (Comment s))) = Some (f (Comment s))"
    by (rule find_nodes_of_self) (use calculation "3.prems"(2) in blast)
  ultimately show ?case by simp
next
  case (4 P f)
  then show ?case by simp
next
  case (5 P f c cs)
  show ?case
  proof (cases "find P (nodes_of c)")
    case None
    then have "update_first_node P f c = None" by (simp add: update_first_None)
    with 5 None show ?thesis by (auto simp: find_append)
  next
    case (Some y)
    with 5 show ?thesis by (auto simp: find_append)
  qed
qed

lemma soup_find_update_first:
  assumes "local_pred P" and "\<And>x. P x \<Longrightarrow> P (f x)" and "soup_find P soup = Some x"
  shows "soup_find P (update_first P f soup) = Some (f x)"
  using update_first_find(2) [of P f soup x] assms
  by (auto simp: soup_find_def descendants_def update_first_def)

lemma append_first_filter:
  "local_pred Q \<Longrightarrow> \<forall>x. P x \<longrightarrow> (\<exists>n a cs. x = Tag n a cs \<and> f x = Tag n a (cs @ [new])) \<Longrightarrow>
     update_first_node P f nd = Some nd' \<Longrightarrow> filter Q (nodes_of nd) = [] \<Longrightarrow>
     filter Q (nodes_of nd') = filter Q (nodes_of new)"
  "local_pred Q \<Longrightarrow> \<forall>x. P x \<longrightarrow> (\<exists>n a cs. x = Tag n a cs \<and> f x = Tag n a (cs @ [new])) \<Longrightarrow>
     update_first_nodes P f cs = Some cs' \<Longrightarrow> filter Q (concat (map nodes_of cs)) = [] \<Longrightarrow>
     filter Q (concat (map nodes_of cs')) = filter Q (nodes_of new)"
proof (induction P f nd and P f cs arbitrary: nd' and cs' rule: update_first_node_update_first_nodes.induct)
  case (1 P f n a cs)
  have q: "\<not> Q (Tag n a cs)" using "1.prems"(4) by (auto split: if_splits)
  show ?case
  proof (cases "P (Tag n a cs)")
    case True
    with "1.prems"(2) have "f (Tag n a cs) = Tag n a (cs @ [new])" by auto
    with True "1.prems"(3) have "nd' = Tag n a (cs @ [new])" by simp
    moreover have "\<not> Q (Tag n a (cs @ [new]))" using q local_Tag [OF "1.prems"(1)] by blast
    moreover have "filter Q (concat (map nodes_of cs)) = []" using "1.prems"(4) q by simp
    ultimately show ?thesis by simp
  next
    case False
    with "1.prems"(3) obtain cs' where c: "update_first_nodes P f cs = Some cs'" "nd' = Tag n a cs'"
      by auto
    have "filter Q (concat (map nodes_of cs)) = []" using "1.prems"(4) q by simp
    with 1 False c have "filter Q (concat (map nodes_of cs')) = filter Q (nodes_of new)" by blast
    moreover have "\<not> Q (Tag n a cs')" using q local_Tag [OF "1.prems"(1)] by blast
    ultimately show ?thesis using c by simp
  qed
next
  case (2 P f s)
  then show ?case by (auto split: if_splits)
next
  case (3 P f s)
  then show ?case by (auto split: if_splits)
next
  case (4 P f)
  then show ?case by simp
next
  case (5 P f c cs)
  have e: "filter Q (nodes_of c) = []" "filter Q (concat (map nodes_of cs)) = []"
    using "5.prems"(4) by simp_all
  show ?case
  proof (cases "update_first_node P f c")
    case None
    with "5.prems"(3) obtain cs2 where c2: "update_first_nodes P f cs = Some cs2" "cs' = c # cs2"
      by auto
    with 5 None e have "filter Q (concat (map nodes_of cs2)) = filter Q (nodes_of new)" by blast
    with c2 e show ?thesis by simp
  next
    case (Some c')
    with "5.prems"(3) have c2: "cs' = c' # cs" by simp
    from 5 Some e have "filter Q (nodes_of c') = filter Q (nodes_of new)" by blast
    with c2 e show ?thesis by simp
  qed
qed

lemma add_target_blank_eq:
  "add_target_blank_node nd = (map_attrs_node harden_anchor nd, list_ex lacks_target (nodes_of nd))"
  "add_target_blank_nodes cs =
     (map (map_attrs_node harden_anchor) cs, list_ex lacks_target (concat (map nodes_of cs)))"
  by (induction nd and cs rule: add_target_blank_node_add_target_blank_nodes.induct)
     (auto simp: harden_anchor_def list_ex_iff)

lemma map_attrs_node_id:
  "\<not> list_ex lacks_target (nodes_of nd) \<Longrightarrow> map_attrs_node harden_anchor nd = nd"
  by (induction harden_anchor nd rule: map_attrs_node.induct)
     (auto simp: harden_anchor_def list_ex_iff intro: map_idI)

lemma nodes_of_map_attrs:
  "nodes_of (map_attrs_node g nd) = map (map_attrs_node g) (nodes_of nd)"
  by (induction g nd rule: map_attrs_node.induct)
     (auto simp: map_concat intro!: arg_cong [where f = concat])

lemma is_comment_map_attrs [simp]: "is_comment (map_attrs_node g x) = is_comment x"
  by (cases x) simp_all

lemma extract_comments_node_free:
  "\<not> is_comment nd \<Longrightarrow> list_all (\<lambda>x. \<not> is_comment x) (nodes_of (extract_comments_node nd))"
  by (induction nd rule: extract_comments_node.induct) (auto simp: list_all_iff)

lemma update_first_comment_free:
  "\<forall>x. list_all (\<lambda>y. \<not> is_comment y) (nodes_of x) \<longrightarrow> list_all (\<lambda>y. \<not> is_comment y) (nodes_of (f x)) \<Longrightarrow>
     list_all (\<lambda>y. \<not> is_comment y) (nodes_of nd) \<Longrightarrow> update_first_node P f nd = Some nd' \<Longrightarrow>
     list_all (\<lambda>y. \<not> is_comment y) (nodes_of nd')"
  "\<forall>x. list_all (\<lambda>y. \<not> is_comment y) (nodes_of x) \<longrightarrow> list_all (\<lambda>y. \<not> is_comment y) (nodes_of (f x)) \<Longrightarrow>
     list_all (\<lambda>y. \<not> is_comment y) (concat (map nodes_of cs)) \<Longrightarrow> update_first_nodes P f cs = Some cs' \<Longrightarrow>
     list_all (\<lambda>y. \<not> is_comment y) (concat (map nodes_of cs'))"
proof (induction P f nd and P f cs arbitrary: nd' and cs' rule: update_first_node_update_first_nodes.induct)
  case (1 P f n a cs)
  show ?case
  proof (cases "P (Tag n a cs)")
    case True
    with "1.prems" show ?thesis by auto
  next
    case False
    with "1.prems"(3) obtain cs' where c: "update_first_nodes P f cs = Some cs'" "nd' = Tag n a cs'"
      by auto
    with 1 False show ?thesis by auto
  qed
next
  case (2 P f s)
  then show ?case by (auto split: if_splits)
next
  case (3 P f s)
  then show ?case by (auto split: if_splits)
next
  case (4 P f)
  then show ?case by simp
next
  case (5 P f c cs)
  show ?case
  proof (cases "update_first_node P f c")
    case None
    with "5.prems"(3) obtain cs2 where c2: "update_first_nodes P f cs = Some cs2" "cs' = c # cs2"
      by auto
    with 5 None show ?thesis by auto
  next
    case (Some c')
    with "5.prems"(3) have c2: "cs' = c' # cs" by simp
    with 5 Some show ?thesis by auto
  qed
qed

section \<open>The example documents\<close>

lemmas tree_defs = lit_def soup_find_def descendants_def update_first_def new_tag_def has_attr_def harden_def
  soup_find_all_def

lemma ensure_script_page_link: "ensure_script page_link = (page_link_once, True)"
  by (simp add: ensure_script_def page_link_def page_link_once_def tree_defs)

lemma adjust_body_page_link: "adjust_body page_link = (page_link_once, True)"
  by (simp add: adjust_body_def ensure_script_page_link)

lemma src_re_preview: "src_re (lit ''/preview.js'')"
  by (simp add: src_re_def search_anchored_def preview_path_def at_end_def ci_eq_def)

lemma ensure_script_page_link_once: "ensure_script page_link_once = (page_link_once, False)"
  by (simp add: ensure_script_def page_link_once_def tree_defs src_re_preview [simplified])

lemma adjust_body_page_link_once: "adjust_body page_link_once = (page_link_twice, True)"
  by (simp add: adjust_body_def ensure_script_page_link_once)
     (simp add: add_target_blank_def page_link_once_def page_link_twice_def tree_defs)

lemma no_meta_page_link_once: "adjust_csp_meta u page_link_once = (page_link_once, False)"
  by (simp add: adjust_csp_meta_def page_link_once_def tree_defs)

lemma no_meta_page_link_twice: "adjust_csp_meta u page_link_twice = (page_link_twice, False)"
  by (simp add: adjust_csp_meta_def page_link_twice_def tree_defs)

lemma extract_page_link: "extract_comments page_link = page_link"
  "extract_comments page_link_once = page_link_once"
  by (simp_all add: extract_comments_def page_link_def page_link_once_def)

section \<open>The policy tag\<close>

lemma map_of_set_attr: "map_of (set_attr k v a) k' = (if k' = k then Some v else map_of a k')"
  by (induction a) auto

lemma local_is_csp_meta: "local_pred is_csp_meta"
  unfolding local_pred_def
proof
  fix x show "is_csp_meta x = is_csp_meta (label x)" by (cases x) simp_all
qed

lemma is_csp_meta_set_content: "is_csp_meta x \<Longrightarrow> is_csp_meta (set_tag_attr (lit ''content'') v x)"
  by (cases x) (simp_all add: map_of_set_attr)

lemma content_set_content:
  "is_csp_meta x \<Longrightarrow> map_of (attrs_of (set_tag_attr (lit ''content'') v x)) (lit ''content'') = Some v"
  by (cases x) (simp_all add: map_of_set_attr)

lemma adjust_csp_meta_found:
  assumes "csp_content soup = Some raw"
  shows "snd (adjust_csp_meta u soup) = (new_content_of u raw \<noteq> raw)"
    and "new_content_of u raw = raw \<Longrightarrow> fst (adjust_csp_meta u soup) = soup"
    and "csp_content (fst (adjust_csp_meta u soup)) = Some (new_content_of u raw)"
    and "adjust_csp_meta u soup =
           (if new_content_of u raw = raw then (soup, False)
            else (update_first is_csp_meta (set_tag_attr (lit ''content'') (new_content_of u raw)) soup, True))"
proof -
  from assms obtain meta where m: "soup_find is_csp_meta soup = Some meta"
    "map_of (attrs_of meta) (lit ''content'') = Some raw"
    by (auto simp: csp_content_def split: option.splits)
  then have p: "is_csp_meta meta" by (auto simp: soup_find_def find_Some_iff)
  show "snd (adjust_csp_meta u soup) = (new_content_of u raw \<noteq> raw)"
    using m by (simp add: adjust_csp_meta_def Let_def)
  show "new_content_of u raw = raw \<Longrightarrow> fst (adjust_csp_meta u soup) = soup"
    using m by (simp add: adjust_csp_meta_def Let_def)
  show "adjust_csp_meta u soup =
           (if new_content_of u raw = raw then (soup, False)
            else (update_first is_csp_meta (set_tag_attr (lit ''content'') (new_content_of u raw)) soup, True))"
    using m by (simp add: adjust_csp_meta_def Let_def)
  show "csp_content (fst (adjust_csp_meta u soup)) = Some (new_content_of u raw)"
  proof (cases "new_content_of u raw = raw")
    case True
    with m assms show ?thesis by (simp add: adjust_csp_meta_def Let_def)
  next
    case False
    have "soup_find is_csp_meta (update_first is_csp_meta (set_tag_attr (lit ''content'') (new_content_of u raw)) soup)
            = Some (set_tag_attr (lit ''content'') (new_content_of u raw) meta)"
      by (rule soup_find_update_first [OF local_is_csp_meta _ m(1)]) (rule is_csp_meta_set_content)
    with False m p show ?thesis
      by (simp add: adjust_csp_meta_def Let_def csp_content_def content_set_content [simplified])
  qed
qed

text \<open>
  On the value that the tree holds: when it contains \<^verbatim>\<open>&#39;\<close>, the value the attribute
  holds after \<^verbatim>\<open>adjust_csp_meta\<close> is the joined directive list with every apostrophe
  replaced by \<^verbatim>\<open>&#39;\<close> in one pass over the joined text, and holds no apostrophe; when
  it does not, it is the joined list as it is.
\<close>

lemma quote_style_of_tree_value:
  "csp_content soup = Some raw_content \<Longrightarrow>
     csp_content (fst (adjust_csp_meta unescape soup)) = Some (new_content_of unescape raw_content) \<and>
     (contains raw_content apos_entity \<longrightarrow>
        new_content_of unescape raw_content =
          replace_char apostrophe apos_entity
            (join (lit ''; '') (new_directives_of (directives_of (unescape raw_content)))) \<and>
        apostrophe \<notin> set (new_content_of unescape raw_content)) \<and>
     (\<not> contains raw_content apos_entity \<longrightarrow>
        new_content_of unescape raw_content =
          join (lit ''; '') (new_directives_of (directives_of (unescape raw_content))))"
proof -
  assume a: "csp_content soup = Some raw_content"
  have "apostrophe \<notin> set apos_entity" by (simp add: apostrophe_def apos_entity_def lit_def)
  then have "apostrophe \<notin> set (replace_char apostrophe apos_entity s)" for s
    by (rule replace_char_free)
  then show ?thesis
    using adjust_csp_meta_found(3) [OF a, of unescape] by (simp add: new_content_of_def Let_def)
qed

lemmas csp_eval = lit_def new_content_of_def directives_of_def new_directives_of_def strip_def strip_where_def
  isspace_def is_script_src_def lower_def lower_cp_def apos_entity_def semicolon_def apostrophe_def
  replace_char_def self_token_def script_src_directive_def sources_of_def split_def with_self_def
  is_self_def strip_chars_def quotation_mark_def

lemma csp_content_page: "csp_content (csp_page v) = Some v"
  by (simp add: csp_content_def csp_page_def soup_find_def descendants_def http_equiv_re_def
      search_anchored_def at_end_def ci_eq_def lit_def)

lemma parsed_entity_value: "parsed_attribute unescape_apos csp_entity_written = csp_entity_parsed"
  by (simp add: parsed_attribute_def csp_entity_written_def csp_entity_parsed_def apos_entity_def
      apostrophe_def lit_def)

lemma new_content_entity_parsed:
  "new_content_of unescape_apos csp_entity_parsed = csp_entity_parsed @ lit ''; script-src '' @ self_token"
  by (simp add: csp_entity_parsed_def csp_eval)

text \<open>
  C3. A policy that a file writes with \<^verbatim>\<open>&#39;\<close> for its apostrophes should come out with
  \<^verbatim>\<open>&#39;\<close> for every apostrophe, those of the appended \<^verbatim>\<open>'self'\<close> included. It does not:
  the parser has decoded the references before line 146 reads the value, so the test of
  line 170 finds no \<^verbatim>\<open>&#39;\<close>, no apostrophe is replaced, and the value the attribute
  holds afterwards has apostrophes, the old ones and the new ones.
\<close>

theorem entity_style_not_kept:
  "contains csp_entity_written apos_entity \<and>
   parsed_attribute unescape_apos csp_entity_written = csp_entity_parsed \<and>
   \<not> contains csp_entity_parsed apos_entity \<and>
   adjust_csp_meta unescape_apos (csp_page (parsed_attribute unescape_apos csp_entity_written)) =
     (csp_page (csp_entity_parsed @ lit ''; script-src '' @ self_token), True) \<and>
   apostrophe \<in> set (csp_entity_parsed @ lit ''; script-src '' @ self_token)"
proof -
  have a: "contains csp_entity_written apos_entity"
    by (simp add: csp_entity_written_def apos_entity_def lit_def)
  have b: "\<not> contains csp_entity_parsed apos_entity"
    by (simp add: csp_entity_parsed_def apos_entity_def apostrophe_def lit_def)
  have c: "apostrophe \<in> set (csp_entity_parsed @ lit ''; script-src '' @ self_token)"
    by (simp add: csp_entity_parsed_def)
  have d: "csp_entity_parsed @ lit ''; script-src '' @ self_token \<noteq> csp_entity_parsed"
    by simp
  have "adjust_csp_meta unescape_apos (csp_page csp_entity_parsed) =
      (update_first is_csp_meta
         (set_tag_attr (lit ''content'') (csp_entity_parsed @ lit ''; script-src '' @ self_token))
         (csp_page csp_entity_parsed), True)"
    using adjust_csp_meta_found(4) [OF csp_content_page, of unescape_apos csp_entity_parsed] d
    by (simp add: new_content_entity_parsed)
  moreover have "update_first is_csp_meta (set_tag_attr (lit ''content'') v) (csp_page w) = csp_page v"
    for v w
    by (simp add: update_first_def csp_page_def http_equiv_re_def search_anchored_def at_end_def
        ci_eq_def lit_def)
  ultimately show ?thesis
    using a b c by (simp add: parsed_entity_value)
qed

lemma new_directives_nth:
  "i < length ds \<Longrightarrow> is_script_src (ds ! i) \<Longrightarrow>
     length (new_directives_of ds) = length ds \<and>
     new_directives_of ds ! i = script_src_directive (ds ! i)"
proof -
  assume a: "i < length ds" "is_script_src (ds ! i)"
  then have "list_ex is_script_src ds" by (auto simp: list_ex_iff)
  with a show ?thesis by (simp add: new_directives_of_eq rewrite_directive_def)
qed

lemma split_prefixed:
  "list_all token ws \<Longrightarrow> split (lit ''script-src '' @ join (lit '' '') ws) = lit ''script-src'' # ws"
proof (cases ws)
  case Nil
  then show ?thesis by (simp add: split_def isspace_def)
next
  case (Cons w ws')
  assume "list_all token ws"
  moreover have "token (lit ''script-src'')" by (simp add: token_def isspace_def)
  ultimately have "split_run [] (join (lit '' '') (lit ''script-src'' # ws)) = lit ''script-src'' # ws"
    by (rule split_run_join)
  with Cons show ?thesis by (simp add: split_def)
qed

lemma update_csp_page:
  "update_first is_csp_meta (set_tag_attr (lit ''content'') v) (csp_page w) = csp_page v"
  by (simp add: update_first_def csp_page_def http_equiv_re_def search_anchored_def at_end_def
      ci_eq_def lit_def)

text \<open>
  C4. A script-src directive whose sources already include \<^verbatim>\<open>'self'\<close> (quotes stripped
  for the comparison) is emitted as \<^verbatim>\<open>script-src\<close> and its sources joined by single
  spaces, the sources being those it had. The new value is the directives joined by
  \<^verbatim>\<open>; \<close>, with the apostrophes replaced when the value found contains \<^verbatim>\<open>&#39;\<close>;
  \<^verbatim>\<open>adjust_csp_meta\<close> reports a change exactly when the new value differs from the value
  found, writes it into the attribute in that case only, and otherwise leaves the tree as
  it is.
\<close>

theorem csp_self_already_present:
  "csp_content soup = Some raw_content \<Longrightarrow>
   i < length (directives_of (unescape raw_content)) \<Longrightarrow>
   d = directives_of (unescape raw_content) ! i \<Longrightarrow>
   is_script_src d \<Longrightarrow> list_ex is_self (sources_of d) \<Longrightarrow>
     new_directives_of (directives_of (unescape raw_content)) ! i =
       lit ''script-src '' @ join (lit '' '') (sources_of d) \<and>
     sources_of (lit ''script-src '' @ join (lit '' '') (sources_of d)) = sources_of d \<and>
     new_content_of unescape raw_content =
       (if contains raw_content apos_entity
        then replace_char apostrophe apos_entity
               (join (lit ''; '') (new_directives_of (directives_of (unescape raw_content))))
        else join (lit ''; '') (new_directives_of (directives_of (unescape raw_content)))) \<and>
     adjust_csp_meta unescape soup =
       (if new_content_of unescape raw_content = raw_content then (soup, False)
        else (update_first is_csp_meta
                (set_tag_attr (lit ''content'') (new_content_of unescape raw_content)) soup, True)) \<and>
     csp_content (fst (adjust_csp_meta unescape soup)) = Some (new_content_of unescape raw_content)"
proof -
  assume a: "csp_content soup = Some raw_content"
    and i: "i < length (directives_of (unescape raw_content))"
    and d: "d = directives_of (unescape raw_content) ! i"
    and s: "is_script_src d" and self: "list_ex is_self (sources_of d)"
  have 1: "new_directives_of (directives_of (unescape raw_content)) ! i = script_src_directive d"
    using new_directives_nth [OF i] s d by simp
  have 2: "script_src_directive d = lit ''script-src '' @ join (lit '' '') (sources_of d)"
    using self by (simp add: script_src_directive_def with_self_def)
  have 3: "sources_of (lit ''script-src '' @ join (lit '' '') (sources_of d)) = sources_of d"
    using split_prefixed [OF sources_tokens, of d] by (simp add: sources_of_def)
  have 4: "new_content_of unescape raw_content =
       (if contains raw_content apos_entity
        then replace_char apostrophe apos_entity
               (join (lit ''; '') (new_directives_of (directives_of (unescape raw_content))))
        else join (lit ''; '') (new_directives_of (directives_of (unescape raw_content))))"
    by (simp add: new_content_of_def Let_def)
  note 5 = adjust_csp_meta_found(4) [OF a, of unescape]
  note 6 = adjust_csp_meta_found(3) [OF a, of unescape]
  show ?thesis
    by (intro conjI) (use 1 2 in simp, rule 3, rule 4, rule 5, rule 6)
qed

lemma directives_self_value: "directives_of (unescape_apos csp_self_value) = [csp_self_value]"
  by (simp add: csp_self_value_def csp_eval)

lemma new_content_self_value: "new_content_of unescape_apos csp_self_value = csp_self_value"
  by (simp add: csp_self_value_def csp_eval)

lemma sources_self_value: "sources_of csp_self_value = [self_token, lit ''https://x.com'']"
  by (simp add: csp_self_value_def csp_eval)

lemma directives_double_space:
  "directives_of (unescape_apos csp_double_space_value) = [csp_double_space_value]"
  by (simp add: csp_double_space_value_def csp_eval)

lemma new_content_double_space:
  "new_content_of unescape_apos csp_double_space_value = lit ''script-src '' @ self_token"
  by (simp add: csp_double_space_value_def csp_eval)

lemma sources_double_space: "sources_of csp_double_space_value = [self_token]"
  by (simp add: csp_double_space_value_def csp_eval)

theorem csp_self_already_present_witness:
  "csp_content (csp_page csp_self_value) = Some csp_self_value \<and>
   directives_of (unescape_apos csp_self_value) = [csp_self_value] \<and>
   is_script_src csp_self_value \<and> list_ex is_self (sources_of csp_self_value) \<and>
   new_directives_of (directives_of (unescape_apos csp_self_value)) ! 0 = csp_self_value \<and>
   adjust_csp_meta unescape_apos (csp_page csp_self_value) = (csp_page csp_self_value, False) \<and>
   csp_content (csp_page csp_double_space_value) = Some csp_double_space_value \<and>
   directives_of (unescape_apos csp_double_space_value) = [csp_double_space_value] \<and>
   is_script_src csp_double_space_value \<and> list_ex is_self (sources_of csp_double_space_value) \<and>
   new_directives_of (directives_of (unescape_apos csp_double_space_value)) ! 0 =
     lit ''script-src '' @ self_token \<and>
   adjust_csp_meta unescape_apos (csp_page csp_double_space_value) =
     (csp_page (lit ''script-src '' @ self_token), True)"
proof -
  have s: "is_script_src csp_self_value"
    by (simp add: csp_self_value_def csp_eval)
  have e: "list_ex is_self (sources_of csp_self_value)"
    by (simp add: sources_self_value is_self_self_token)
  have i: "0 < length (directives_of (unescape_apos csp_self_value))"
    by (simp add: directives_self_value)
  have d: "csp_self_value = directives_of (unescape_apos csp_self_value) ! 0"
    by (simp add: directives_self_value)
  have s': "is_script_src csp_double_space_value"
    by (simp add: csp_double_space_value_def csp_eval)
  have e': "list_ex is_self (sources_of csp_double_space_value)"
    by (simp add: sources_double_space is_self_self_token)
  have i': "0 < length (directives_of (unescape_apos csp_double_space_value))"
    by (simp add: directives_double_space)
  have d': "csp_double_space_value = directives_of (unescape_apos csp_double_space_value) ! 0"
    by (simp add: directives_double_space)
  have n: "lit ''script-src '' @ self_token \<noteq> csp_double_space_value"
    by (simp add: csp_double_space_value_def lit_def self_token_def apostrophe_def)
  note A = csp_self_already_present
        [where soup = "csp_page csp_self_value" and unescape = unescape_apos and i = 0,
         OF csp_content_page i d s e]
  note B = csp_self_already_present
        [where soup = "csp_page csp_double_space_value" and unescape = unescape_apos and i = 0,
         OF csp_content_page i' d' s' e']
  have A1: "new_directives_of (directives_of (unescape_apos csp_self_value)) ! 0 = csp_self_value"
    using A [THEN conjunct1] by (simp add: sources_self_value) (simp add: csp_self_value_def)
  have A2: "adjust_csp_meta unescape_apos (csp_page csp_self_value) = (csp_page csp_self_value, False)"
    using A [THEN conjunct2, THEN conjunct2, THEN conjunct2, THEN conjunct1]
    by (simp add: new_content_self_value)
  have B1: "new_directives_of (directives_of (unescape_apos csp_double_space_value)) ! 0 =
      lit ''script-src '' @ self_token"
    using B [THEN conjunct1] by (simp add: sources_double_space)
  have B2: "adjust_csp_meta unescape_apos (csp_page csp_double_space_value) =
      (csp_page (lit ''script-src '' @ self_token), True)"
    using B [THEN conjunct2, THEN conjunct2, THEN conjunct2, THEN conjunct1] n
    by (simp add: new_content_double_space update_csp_page [simplified])
  show ?thesis
    using A1 A2 B1 B2 s e s' e'
    by (simp add: csp_content_page directives_self_value directives_double_space)
qed

lemma split_sep_free: "list_all (\<lambda>p. sep \<notin> set p) (split_sep sep s)"
  by (induction s) (auto split: list.splits)

lemma set_strip_where: "set (strip_where P s) \<subseteq> set s"
proof -
  have "set (dropWhile P xs) \<subseteq> set xs" for xs
    by (metis set_dropWhileD subsetI)
  then have "set (dropWhile P (rev (dropWhile P s))) \<subseteq> set s"
    by (metis set_rev subset_trans)
  then show ?thesis by (simp add: strip_where_def)
qed

lemma directives_of_spec:
  "directives_of decoded = filter (\<lambda>d. d \<noteq> []) (map strip (split_sep semicolon decoded))"
  by (simp add: directives_of_def filter_map comp_def)

lemma directives_ok: "list_all directive_ok (directives_of decoded)"
proof -
  have "list_all (\<lambda>p. semicolon \<notin> set (strip p)) (split_sep semicolon decoded)"
    using split_sep_free [of "semicolon" decoded] set_strip_where [of isspace]
    by (auto simp: list_all_iff strip_def)
  then show ?thesis
    by (auto simp: directives_of_def directive_ok_def list_all_iff)
qed

text \<open>
  The directives are the pieces of the decoded value between semicolons, stripped of
  whitespace, the empty ones dropped. When none of them starts with \<^verbatim>\<open>script-src\<close>,
  letter case apart, the new list is the old one, in its order, followed by the one
  directive \<^verbatim>\<open>script-src 'self'\<close>.
\<close>

lemma no_script_src_appends_one:
  "directives_of decoded = filter (\<lambda>d. d \<noteq> []) (map strip (split_sep semicolon decoded)) \<and>
   list_all directive_ok (directives_of decoded) \<and>
   (\<not> list_ex is_script_src (directives_of decoded) \<longrightarrow>
      new_directives_of (directives_of decoded) =
        directives_of decoded @ [lit ''script-src '' @ self_token])"
proof (intro conjI impI)
  show "directives_of decoded = filter (\<lambda>d. d \<noteq> []) (map strip (split_sep semicolon decoded))"
    by (rule directives_of_spec)
  show "list_all directive_ok (directives_of decoded)"
    by (rule directives_ok)
  assume "\<not> list_ex is_script_src (directives_of decoded)"
  then show "new_directives_of (directives_of decoded) =
      directives_of decoded @ [lit ''script-src '' @ self_token]"
    by (simp add: new_directives_of_eq)
qed

lemma directives_spaced_value:
  "directives_of csp_spaced_value = [lit ''default-src https:'', lit ''img-src *'']"
  by (simp add: csp_spaced_value_def csp_eval)

text \<open>
  C5. A list without a directive named \<^verbatim>\<open>script-src\<close> should get the one directive
  \<^verbatim>\<open>script-src 'self'\<close> appended and keep its other directives. The test of line 154 looks
  at the start of the directive, not at its name: for \<^verbatim>\<open>script-src-elem https://x.com\<close>,
  which has no directive of that name, nothing is appended and the directive itself comes
  out renamed, as \<^verbatim>\<open>script-src https://x.com 'self'\<close>; beside a \<^verbatim>\<open>script-src\<close> directive
  the result has two directives of that name.
\<close>

theorem script_src_elem_renamed:
  "\<not> list_ex spec_named_script_src (directives_of csp_elem_value) \<and>
   directives_of csp_elem_value = [lit ''script-src-elem https://x.com''] \<and>
   new_directives_of (directives_of csp_elem_value) = [lit ''script-src https://x.com '' @ self_token] \<and>
   new_directives_of (directives_of csp_elem_value) \<noteq>
     directives_of csp_elem_value @ [lit ''script-src '' @ self_token] \<and>
   new_directives_of (directives_of csp_elem_pair_value) =
     [lit ''script-src https://x.com '' @ self_token, lit ''script-src https://y.com '' @ self_token]"
  by (simp add: csp_elem_value_def csp_elem_pair_value_def csp_eval spec_named_script_src_def)

text \<open>
  C9. A directive whose text starts with \<^verbatim>\<open>script-src\<close>, letter case apart, is emitted
  under the name \<^verbatim>\<open>script-src\<close>, whatever its own name was, followed by its sources with
  \<^verbatim>\<open>'self'\<close> among them; the new list is as long as the old one, so no directive is
  appended.
\<close>

theorem prefix_is_script_src:
  "i < length ds \<Longrightarrow> is_script_src (ds ! i) \<Longrightarrow>
     length (new_directives_of ds) = length ds \<and>
     new_directives_of ds ! i = lit ''script-src '' @ join (lit '' '') (with_self (sources_of (ds ! i))) \<and>
     split (new_directives_of ds ! i) = lit ''script-src'' # with_self (sources_of (ds ! i)) \<and>
     list_ex is_self (with_self (sources_of (ds ! i)))"
  using new_directives_nth [of i ds] split_script_src_directive [of "ds ! i"]
    with_self_has_self [of "sources_of (ds ! i)"]
  by (simp add: script_src_directive_def)

theorem prefix_is_script_src_witness:
  "is_script_src (lit ''script-src-elem https://x.com'') \<and> is_script_src (lit ''SCRIPT-SRC'') \<and>
   new_directives_of [lit ''default-src *'', lit ''script-src-elem https://x.com''] =
     [lit ''default-src *'', lit ''script-src https://x.com '' @ self_token] \<and>
   new_directives_of [lit ''SCRIPT-SRC''] = [lit ''script-src '' @ self_token]"
proof -
  have a: "is_script_src ([lit ''default-src *'', lit ''script-src-elem https://x.com''] ! 1)"
    and b: "is_script_src ([lit ''SCRIPT-SRC''] ! 0)"
    by (simp_all add: csp_eval)
  show ?thesis
    using prefix_is_script_src [OF _ a] prefix_is_script_src [OF _ b]
    by (simp add: csp_eval)
qed

section \<open>Script injection and link hardening\<close>

lemma match_ci_eq:
  "match_ci p s =
     (if length p \<le> length s \<and> list_all2 ci_eq p (take (length p) s)
      then Some (drop (length p) s) else None)"
  by (induction p s rule: match_ci.induct) auto

lemma search_anchored_iff:
  "search_anchored literal v =
     (matches_ci literal v \<or> (v \<noteq> [] \<and> last v = line_feed \<and> matches_ci literal (butlast v)))"
proof
  assume "search_anchored literal v"
  then have n: "length literal \<le> length v"
    and p: "list_all2 ci_eq literal (take (length literal) v)"
    and e: "at_end (drop (length literal) v)"
    by (auto simp: search_anchored_def match_ci_eq split: if_splits)
  have v: "take (length literal) v @ drop (length literal) v = v" by simp
  from e show "matches_ci literal v \<or> (v \<noteq> [] \<and> last v = line_feed \<and> matches_ci literal (butlast v))"
  proof (unfold at_end_def, elim disjE)
    assume "drop (length literal) v = []"
    then have "take (length literal) v = v" by simp
    with p show ?thesis by (simp add: matches_ci_def)
  next
    assume "drop (length literal) v = [line_feed]"
    with v have "take (length literal) v @ [line_feed] = v" by simp
    then have "v \<noteq> []" and "last v = line_feed" and "butlast v = take (length literal) v"
      using snoc_eq_iff_butlast [of "take (length literal) v" line_feed v] by auto
    with p show ?thesis by (simp add: matches_ci_def)
  qed
next
  assume "matches_ci literal v \<or> (v \<noteq> [] \<and> last v = line_feed \<and> matches_ci literal (butlast v))"
  then show "search_anchored literal v"
  proof
    assume m: "matches_ci literal v"
    then have "length literal = length v" by (simp add: matches_ci_def list_all2_lengthD)
    with m show ?thesis by (simp add: search_anchored_def match_ci_eq at_end_def matches_ci_def)
  next
    assume a: "v \<noteq> [] \<and> last v = line_feed \<and> matches_ci literal (butlast v)"
    then obtain u where u: "v = u @ [line_feed]" and m: "list_all2 ci_eq literal u"
      by (metis append_butlast_last_id matches_ci_def)
    from m have "length literal = length u" by (rule list_all2_lengthD)
    with u m show ?thesis by (simp add: search_anchored_def match_ci_eq at_end_def)
  qed
qed

lemma is_preview_script_iff:
  "is_preview_script (Tag n a cs) =
     (n = lit ''script'' \<and>
      (case map_of a (lit ''src'') of
         None \<Rightarrow> False
       | Some v \<Rightarrow>
           matches_ci (lit ''/preview.js'') v \<or>
           (v \<noteq> [] \<and> last v = line_feed \<and> matches_ci (lit ''/preview.js'') (butlast v))))"
  by (simp add: src_re_def search_anchored_iff preview_path_def split: option.splits)

lemma local_is_preview_script: "local_pred is_preview_script"
  unfolding local_pred_def
proof
  fix x show "is_preview_script x = is_preview_script (label x)" by (cases x) simp_all
qed

lemma local_is_named: "local_pred (is_named b)"
  unfolding local_pred_def
proof
  fix x show "is_named b x = is_named b (label x)" by (cases x) simp_all
qed

lemma is_named_append_child: "is_named b x \<Longrightarrow> is_named b (append_child c x)"
  by (cases x) simp_all

lemma is_named_Tag:
  "\<forall>x. is_named b x \<longrightarrow> (\<exists>n a cs. x = Tag n a cs \<and> append_child c x = Tag n a (cs @ [c]))"
proof (intro allI impI)
  fix x assume "is_named b x" then show "\<exists>n a cs. x = Tag n a cs \<and> append_child c x = Tag n a (cs @ [c])"
    by (cases x) simp_all
qed

lemma soup_find_None_iff: "(soup_find P soup = None) = (\<not> list_ex P (descendants soup))"
  by (auto simp: soup_find_def find_None_iff list_ex_iff)

lemma is_preview_script_new_tag: "is_preview_script new_tag"
  by (simp add: new_tag_def src_re_preview [simplified])

lemma ensure_script_found:
  "list_ex is_preview_script (descendants soup) \<Longrightarrow> ensure_script soup = (soup, False)"
  by (simp add: ensure_script_def soup_find_None_iff)

lemma ensure_script_body:
  assumes "\<not> list_ex is_preview_script (descendants soup)"
    and "soup_find (is_named (lit ''body'')) soup = Some body"
  shows "ensure_script soup = (update_first (is_named (lit ''body'')) (append_child new_tag) soup, True)"
    and "soup_find (is_named (lit ''body'')) (fst (ensure_script soup)) = Some (append_child new_tag body)"
    and "soup_find_all is_preview_script (fst (ensure_script soup)) = [new_tag]"
proof -
  show e: "ensure_script soup = (update_first (is_named (lit ''body'')) (append_child new_tag) soup, True)"
    using assms by (simp add: ensure_script_def soup_find_None_iff)
  show "soup_find (is_named (lit ''body'')) (fst (ensure_script soup)) = Some (append_child new_tag body)"
    unfolding e fst_conv
    by (rule soup_find_update_first [OF local_is_named _ assms(2)]) (rule is_named_append_child)
  from assms(2) obtain soup' where u: "update_first_nodes (is_named (lit ''body'')) (append_child new_tag) soup = Some soup'"
    using update_first_nodes_None_iff [of "is_named (lit ''body'')" "append_child new_tag" soup] by auto
  have "filter is_preview_script (concat (map nodes_of soup)) = []"
    using assms(1) by (auto simp: descendants_def list_ex_iff filter_empty_conv)
  then have "filter is_preview_script (concat (map nodes_of soup')) = filter is_preview_script (nodes_of new_tag)"
    by (rule append_first_filter(2) [OF local_is_preview_script is_named_Tag u])
  then show "soup_find_all is_preview_script (fst (ensure_script soup)) = [new_tag]"
    using u is_preview_script_new_tag
    by (simp add: e update_first_def soup_find_all_def descendants_def) (simp add: new_tag_def)
qed

lemma ensure_script_root:
  assumes "\<not> list_ex is_preview_script (descendants soup)"
    and "soup_find (is_named (lit ''body'')) soup = None"
  shows "ensure_script soup = (soup @ [new_tag], True)"
    and "soup_find_all is_preview_script (fst (ensure_script soup)) = [new_tag]"
proof -
  show e: "ensure_script soup = (soup @ [new_tag], True)"
    using assms by (simp add: ensure_script_def soup_find_None_iff)
  have "filter is_preview_script (descendants soup) = []"
    using assms(1) by (auto simp: list_ex_iff filter_empty_conv)
  then show "soup_find_all is_preview_script (fst (ensure_script soup)) = [new_tag]"
    using is_preview_script_new_tag
    by (simp add: e soup_find_all_def descendants_def) (simp add: new_tag_def)
qed

text \<open>
  C6, as amended. A tag counts as the preview script when it is named \<^verbatim>\<open>script\<close> and its
  \<^verbatim>\<open>src\<close> matches the fixed path under \<^verbatim>\<open>re.IGNORECASE\<close> (the same length, each code
  point the path's letter case apart, where U+0130 and U+0131 also count as \<^verbatim>\<open>i\<close> and
  U+017F as \<^verbatim>\<open>s\<close>), or is such a value followed by one line feed. If such a tag is
  anywhere in the tree, \<^verbatim>\<open>ensure_script\<close> returns the tree as it is and reports no change.
  Otherwise it reports a change, the tree then holds exactly one such tag, the new one,
  whose only attribute is \<^verbatim>\<open>src\<close>; the new tag is the last child of the first \<^verbatim>\<open>body\<close>
  tag when there is one, and the last child of the root when there is none.
\<close>

theorem ensure_script_spec:
  "is_preview_script (Tag n a cs) =
     (n = lit ''script'' \<and>
      (case map_of a (lit ''src'') of
         None \<Rightarrow> False
       | Some v \<Rightarrow>
           matches_ci (lit ''/preview.js'') v \<or>
           (v \<noteq> [] \<and> last v = line_feed \<and> matches_ci (lit ''/preview.js'') (butlast v)))) \<and>
   new_tag = Tag (lit ''script'') [(lit ''src'', lit ''/preview.js'')] [] \<and>
   (list_ex is_preview_script (descendants soup) \<longrightarrow> ensure_script soup = (soup, False)) \<and>
   (\<not> list_ex is_preview_script (descendants soup) \<longrightarrow>
      snd (ensure_script soup) \<and>
      soup_find_all is_preview_script (fst (ensure_script soup)) = [new_tag] \<and>
      (case soup_find (is_named (lit ''body'')) soup of
         Some body \<Rightarrow>
           update_first (is_named (lit ''body'')) (append_child new_tag) soup = fst (ensure_script soup) \<and>
           soup_find (is_named (lit ''body'')) (fst (ensure_script soup)) = Some (append_child new_tag body)
       | None \<Rightarrow> fst (ensure_script soup) = soup @ [new_tag]))"
proof -
  have "\<not> list_ex is_preview_script (descendants soup) \<Longrightarrow>
      snd (ensure_script soup) \<and>
      soup_find_all is_preview_script (fst (ensure_script soup)) = [new_tag] \<and>
      (case soup_find (is_named (lit ''body'')) soup of
         Some body \<Rightarrow>
           update_first (is_named (lit ''body'')) (append_child new_tag) soup = fst (ensure_script soup) \<and>
           soup_find (is_named (lit ''body'')) (fst (ensure_script soup)) = Some (append_child new_tag body)
       | None \<Rightarrow> fst (ensure_script soup) = soup @ [new_tag])"
  proof (cases "soup_find (is_named (lit ''body'')) soup")
    case None
    assume "\<not> list_ex is_preview_script (descendants soup)"
    from ensure_script_root [OF this None] None show ?thesis by simp
  next
    case (Some body)
    assume "\<not> list_ex is_preview_script (descendants soup)"
    from ensure_script_body [OF this Some] Some show ?thesis by simp
  qed
  then show ?thesis
    using is_preview_script_iff [of n a cs] ensure_script_found [of soup]
    by (simp add: new_tag_def)
qed

text \<open>
  C6 as stated fails where a script tag has the path and a line feed as \<^verbatim>\<open>src\<close>, and
  where it has the path with U+0130 for its \<^verbatim>\<open>i\<close>: neither \<^verbatim>\<open>src\<close> equals the path,
  letter case apart, and still nothing is injected and no change is reported, since
  \<^verbatim>\<open>$\<close> matches before a final line feed and \<^verbatim>\<open>re.IGNORECASE\<close> takes U+0130 for
  \<^verbatim>\<open>i\<close>.
\<close>

theorem script_src_newline_counterexample:
  "\<not> list_ex spec_preview_script (descendants page_script_newline) \<and>
   ensure_script page_script_newline = (page_script_newline, False) \<and>
   \<not> list_ex spec_preview_script (descendants page_script_dotted) \<and>
   ensure_script page_script_dotted = (page_script_dotted, False)"
  by (simp add: page_script_newline_def page_script_dotted_def ensure_script_def tree_defs src_re_def
      search_anchored_def preview_path_def at_end_def lower_def lower_cp_def line_feed_def ci_eq_def)

lemma has_script_page_link_once: "list_ex is_preview_script (descendants page_link_once)"
  by (simp add: page_link_once_def descendants_def src_re_preview [simplified])

lemma no_script_page_link: "\<not> list_ex is_preview_script (descendants page_link)"
  by (simp add: page_link_def descendants_def)

lemma no_script_page_no_body: "\<not> list_ex is_preview_script (descendants page_no_body)"
  by (simp add: page_no_body_def descendants_def)

lemma body_page_link:
  "soup_find (is_named (lit ''body'')) page_link =
     Some (Tag (lit ''body'') [] [Tag (lit ''a'') [(lit ''href'', lit ''x'')] [NavigableString (lit ''l'')]])"
  by (simp add: page_link_def tree_defs)

lemma body_page_no_body: "soup_find (is_named (lit ''body'')) page_no_body = None"
  by (simp add: page_no_body_def tree_defs)

theorem ensure_script_spec_witness:
  "list_ex is_preview_script (descendants page_link_once) \<and>
   ensure_script page_link_once = (page_link_once, False) \<and>
   \<not> list_ex is_preview_script (descendants page_link) \<and>
   snd (ensure_script page_link) \<and>
   soup_find_all is_preview_script (fst (ensure_script page_link)) = [new_tag] \<and>
   soup_find (is_named (lit ''body'')) (fst (ensure_script page_link)) =
     Some (Tag (lit ''body'') [] [Tag (lit ''a'') [(lit ''href'', lit ''x'')] [NavigableString (lit ''l'')], new_tag]) \<and>
   \<not> list_ex is_preview_script (descendants page_no_body) \<and>
   fst (ensure_script page_no_body) = [NavigableString (lit ''hi''), new_tag] \<and>
   matches_ci (lit ''/preview.js'') (lit ''/prev'' @ [0x130] @ lit ''ew.js'') \<and>
   list_ex is_preview_script (descendants page_script_dotted) \<and>
   ensure_script page_script_dotted = (page_script_dotted, False)"
proof -
  have m: "matches_ci (lit ''/preview.js'') (lit ''/prev'' @ [0x130] @ lit ''ew.js'')"
    by (simp add: matches_ci_def ci_eq_def)
  have d: "list_ex is_preview_script (descendants page_script_dotted)"
    using ensure_script_spec
      [of "lit ''script''" "[(lit ''src'', lit ''/prev'' @ [0x130] @ lit ''ew.js'')]" "[]" soup,
       THEN conjunct1] m
    by (simp add: page_script_dotted_def descendants_def)
  show ?thesis
    using ensure_script_spec [of n a cs page_link_once, THEN conjunct2, THEN conjunct2]
      ensure_script_spec [of n a cs page_link, THEN conjunct2, THEN conjunct2]
      ensure_script_spec [of n a cs page_no_body, THEN conjunct2, THEN conjunct2]
      ensure_script_spec [of n a cs page_script_dotted, THEN conjunct2, THEN conjunct2] m d
    by (simp add: has_script_page_link_once no_script_page_link no_script_page_no_body
        body_page_link [simplified] body_page_no_body [simplified])
       (simp add: page_no_body_def)
qed

lemma map_of_harden:
  "map_of (harden a) k =
     (if k = (lit ''rel'') then Some (lit ''noopener noreferrer'')
      else if k = (lit ''target'') then Some (lit ''_blank'') else map_of a k)"
  by (simp add: harden_def map_of_set_attr)

text \<open>
  C7. \<^verbatim>\<open>add_target_blank\<close> returns the tree in which every tag named \<^verbatim>\<open>a\<close> without a
  \<^verbatim>\<open>target\<close> attribute has \<^verbatim>\<open>target\<close> set to \<^verbatim>\<open>_blank\<close> and \<^verbatim>\<open>rel\<close> set to
  \<^verbatim>\<open>noopener noreferrer\<close>, its other attributes kept, and in which every other tag,
  an \<^verbatim>\<open>a\<close> with a \<^verbatim>\<open>target\<close> of any value included, has the attributes it had; the
  flag it returns says whether the tree had an \<^verbatim>\<open>a\<close> without \<^verbatim>\<open>target\<close>.
\<close>

theorem add_target_blank_spec:
  "add_target_blank soup =
     (map (map_attrs_node harden_anchor) soup, list_ex lacks_target (descendants soup)) \<and>
   (has_attr a (lit ''target'') \<longrightarrow> harden_anchor (lit ''a'') a = a) \<and>
   (\<not> has_attr a (lit ''target'') \<longrightarrow>
      map_of (harden_anchor (lit ''a'') a) (lit ''target'') = Some (lit ''_blank'') \<and>
      map_of (harden_anchor (lit ''a'') a) (lit ''rel'') = Some (lit ''noopener noreferrer'') \<and>
      (k \<noteq> lit ''target'' \<and> k \<noteq> lit ''rel'' \<longrightarrow> map_of (harden_anchor (lit ''a'') a) k = map_of a k)) \<and>
   (n \<noteq> lit ''a'' \<longrightarrow> harden_anchor n a = a)"
  by (simp add: add_target_blank_def add_target_blank_eq descendants_def harden_anchor_def
      map_of_harden)

theorem add_target_blank_spec_witness:
  "add_target_blank page_link_once = (page_link_twice, True) \<and>
   add_target_blank page_link_twice = (page_link_twice, False) \<and>
   has_attr [(lit ''href'', lit ''x''), (lit ''target'', lit ''top'')] (lit ''target'') \<and>
   harden_anchor (lit ''a'') [(lit ''href'', lit ''x''), (lit ''target'', lit ''top'')] = [(lit ''href'', lit ''x''), (lit ''target'', lit ''top'')] \<and>
   \<not> has_attr [(lit ''href'', lit ''x'')] (lit ''target'') \<and>
   map_of (harden_anchor (lit ''a'') [(lit ''href'', lit ''x'')]) (lit ''target'') = Some (lit ''_blank'') \<and>
   map_of (harden_anchor (lit ''a'') [(lit ''href'', lit ''x'')]) (lit ''rel'') = Some (lit ''noopener noreferrer'') \<and>
   map_of (harden_anchor (lit ''a'') [(lit ''href'', lit ''x'')]) (lit ''href'') = Some (lit ''x'') \<and>
   harden_anchor (lit ''body'') [(lit ''href'', lit ''x'')] = [(lit ''href'', lit ''x'')]"
proof -
  have a: "has_attr [(lit ''href'', lit ''x''), (lit ''target'', lit ''top'')] (lit ''target'')"
    and b: "\<not> has_attr [(lit ''href'', lit ''x'')] (lit ''target'')"
    by (simp_all add: has_attr_def)
  have c: "map (map_attrs_node harden_anchor) page_link_once = page_link_twice"
    "map (map_attrs_node harden_anchor) page_link_twice = page_link_twice"
    by (simp_all add: page_link_once_def page_link_twice_def harden_anchor_def has_attr_def harden_def)
  have d: "list_ex lacks_target (descendants page_link_once)"
    "\<not> list_ex lacks_target (descendants page_link_twice)"
    by (simp_all add: page_link_once_def page_link_twice_def descendants_def has_attr_def)
  show ?thesis
    using add_target_blank_spec [of page_link_once "[(lit ''href'', lit ''x''), (lit ''target'', lit ''top'')]" "(lit ''href'')" "(lit ''body'')"]
      add_target_blank_spec [of page_link_twice "[(lit ''href'', lit ''x'')]" "(lit ''href'')" "(lit ''body'')"]
      a b
    by (simp add: c d)
qed

section \<open>Comments\<close>

lemma extract_comments_free: "no_comments (extract_comments soup)"
  using extract_comments_node_free
  by (auto simp: no_comments_def extract_comments_def descendants_def list_all_iff)

lemma label_extract_comments_node:
  "\<not> is_comment nd \<Longrightarrow>
     map label (nodes_of (extract_comments_node nd)) =
       filter (\<lambda>x. \<not> is_comment x) (map label (nodes_of nd))"
proof (induction nd rule: extract_comments_node.induct)
  case (1 n a cs)
  have "map label (concat (map nodes_of (map extract_comments_node (filter (\<lambda>c. \<not> is_comment c) cs)))) =
        filter (\<lambda>x. \<not> is_comment x) (map label (concat (map nodes_of cs)))"
    using 1(1)
  proof (induction cs)
    case Nil
    then show ?case by simp
  next
    case (Cons c cs)
    show ?case
    proof (cases "is_comment c")
      case True
      then obtain s where "c = Comment s" by (cases c) simp_all
      with Cons show ?thesis by simp
    next
      case False
      with Cons show ?thesis by simp
    qed
  qed
  then show ?case by simp
qed simp_all

lemma label_extract_comments:
  "map label (descendants (extract_comments soup)) =
     filter (\<lambda>x. \<not> is_comment x) (map label (descendants soup))"
proof (induction soup)
  case Nil
  then show ?case by (simp add: extract_comments_def descendants_def)
next
  case (Cons c cs)
  show ?case
  proof (cases "is_comment c")
    case True
    then obtain s where "c = Comment s" by (cases c) simp_all
    with Cons show ?thesis by (simp add: extract_comments_def descendants_def)
  next
    case False
    with Cons label_extract_comments_node [OF False] show ?thesis
      by (simp add: extract_comments_def descendants_def)
  qed
qed

lemma update_first_no_comments:
  assumes "\<forall>x. list_all (\<lambda>y. \<not> is_comment y) (nodes_of x) \<longrightarrow> list_all (\<lambda>y. \<not> is_comment y) (nodes_of (f x))"
    and "no_comments soup"
  shows "no_comments (update_first P f soup)"
proof (cases "update_first_nodes P f soup")
  case None
  with assms(2) show ?thesis by (simp add: update_first_def)
next
  case (Some soup')
  from update_first_comment_free(2) [OF assms(1) _ Some] assms(2) Some show ?thesis
    by (simp add: update_first_def no_comments_def descendants_def)
qed

lemma append_child_comment_free:
  "\<forall>x. list_all (\<lambda>y. \<not> is_comment y) (nodes_of x) \<longrightarrow>
       list_all (\<lambda>y. \<not> is_comment y) (nodes_of (append_child new_tag x))"
proof (intro allI impI)
  fix x assume "list_all (\<lambda>y. \<not> is_comment y) (nodes_of x)"
  then show "list_all (\<lambda>y. \<not> is_comment y) (nodes_of (append_child new_tag x))"
    by (cases x) (simp_all add: new_tag_def)
qed

lemma set_tag_attr_comment_free:
  "\<forall>x. list_all (\<lambda>y. \<not> is_comment y) (nodes_of x) \<longrightarrow>
       list_all (\<lambda>y. \<not> is_comment y) (nodes_of (set_tag_attr k v x))"
proof (intro allI impI)
  fix x assume "list_all (\<lambda>y. \<not> is_comment y) (nodes_of x)"
  then show "list_all (\<lambda>y. \<not> is_comment y) (nodes_of (set_tag_attr k v x))"
    by (cases x) simp_all
qed

lemma ensure_script_no_comments: "no_comments soup \<Longrightarrow> no_comments (fst (ensure_script soup))"
  using update_first_no_comments [OF append_child_comment_free, of soup "is_named (lit ''body'')"]
  by (simp add: ensure_script_def) (simp add: no_comments_def descendants_def new_tag_def)

lemma add_target_blank_no_comments:
  "no_comments soup \<Longrightarrow> no_comments (fst (add_target_blank soup))"
  by (simp add: add_target_blank_def add_target_blank_eq no_comments_def descendants_def
      nodes_of_map_attrs list_all_iff)

lemma adjust_body_no_comments: "no_comments soup \<Longrightarrow> no_comments (fst (adjust_body soup))"
  using ensure_script_no_comments [of soup]
    add_target_blank_no_comments [of "fst (ensure_script soup)"]
  by (cases "ensure_script soup") (auto simp: adjust_body_def)

lemma adjust_csp_meta_no_comments:
  "no_comments soup \<Longrightarrow> no_comments (fst (adjust_csp_meta u soup))"
  using update_first_no_comments [OF set_tag_attr_comment_free, of soup is_csp_meta]
  by (simp add: adjust_csp_meta_def Let_def split: option.splits)

lemma add_target_blank_unchanged:
  "\<not> snd (add_target_blank soup) \<Longrightarrow> add_target_blank soup = (soup, False)"
proof -
  assume "\<not> snd (add_target_blank soup)"
  then have n: "\<not> list_ex lacks_target (concat (map nodes_of soup))"
    by (simp add: add_target_blank_def add_target_blank_eq)
  then have "\<forall>nd \<in> set soup. map_attrs_node harden_anchor nd = nd"
    by (auto simp: list_ex_iff intro!: map_attrs_node_id)
  then have "map (map_attrs_node harden_anchor) soup = soup" by (simp add: map_idI)
  with n show ?thesis by (simp add: add_target_blank_def add_target_blank_eq)
qed

lemma ensure_script_unchanged: "\<not> snd (ensure_script soup) \<Longrightarrow> ensure_script soup = (soup, False)"
  by (simp add: ensure_script_def split: if_splits)

text \<open>
  C10. \<^verbatim>\<open>process_file\<close> runs the three operations on the tree without its comments: what
  is left are the nodes that are not comments, in their order. A file that is written is
  therefore written without comments. Taking the comments out sets no flag: when none of
  the three operations reports a change on the tree without comments, the file is not
  written, whether it had comments or not.
\<close>

theorem comments_never_trigger_write:
  "no_comments (extract_comments parsed) \<and>
   map label (descendants (extract_comments parsed)) =
     filter (\<lambda>x. \<not> is_comment x) (map label (descendants parsed)) \<and>
   (process_file unescape parsed = Updated soup \<longrightarrow> no_comments soup) \<and>
   (\<not> snd (ensure_script (extract_comments parsed)) \<and>
    \<not> snd (add_target_blank (extract_comments parsed)) \<and>
    \<not> snd (adjust_csp_meta unescape (extract_comments parsed)) \<longrightarrow>
      process_file unescape parsed = Unchanged)"
proof -
  let ?s = "extract_comments parsed"
  have w: "process_file unescape parsed = Updated soup \<Longrightarrow> no_comments soup"
  proof -
    assume p: "process_file unescape parsed = Updated soup"
    have "no_comments (fst (adjust_csp_meta unescape (fst (adjust_body ?s))))"
      by (intro adjust_csp_meta_no_comments adjust_body_no_comments extract_comments_free)
    moreover from p have "soup = fst (adjust_csp_meta unescape (fst (adjust_body ?s)))"
      by (auto simp: process_file_def split: prod.splits if_splits)
    ultimately show ?thesis by simp
  qed
  have u: "process_file unescape parsed = Unchanged"
    if "\<not> snd (ensure_script ?s)" "\<not> snd (add_target_blank ?s)"
      "\<not> snd (adjust_csp_meta unescape ?s)"
  proof -
    have "adjust_body ?s = (?s, False)"
      using ensure_script_unchanged [OF that(1)] add_target_blank_unchanged [OF that(2)]
      by (simp add: adjust_body_def)
    with that(3) show ?thesis
      by (cases "adjust_csp_meta unescape (extract_comments parsed)") (auto simp: process_file_def)
  qed
  from w u show ?thesis
    by (simp add: extract_comments_free label_extract_comments)
qed

lemma flags_page_commented:
  "extract_comments page_commented =
     [Tag (lit ''body'') []
        [Tag (lit ''a'') [(lit ''href'', lit ''x''), (lit ''target'', lit ''_self'')] [],
         Tag (lit ''script'') [(lit ''src'', lit ''/preview.js'')] []]]"
  by (simp add: page_commented_def extract_comments_def)

lemma process_page_commented_link:
  "process_file unescape page_commented_link =
     Updated [Tag (lit ''p'') [] [NavigableString (lit ''t'')], new_tag]"
  by (simp add: process_file_def page_commented_link_def extract_comments_def adjust_body_def
      ensure_script_def adjust_csp_meta_def tree_defs)

theorem comments_never_trigger_write_witness:
  "list_ex is_comment (descendants page_commented) \<and>
   \<not> snd (ensure_script (extract_comments page_commented)) \<and>
   \<not> snd (add_target_blank (extract_comments page_commented)) \<and>
   \<not> snd (adjust_csp_meta unescape_apos (extract_comments page_commented)) \<and>
   process_file unescape_apos page_commented = Unchanged \<and>
   list_ex is_comment (descendants page_commented_link) \<and>
   process_file unescape_apos page_commented_link =
     Updated [Tag (lit ''p'') [] [NavigableString (lit ''t'')], new_tag] \<and>
   no_comments [Tag (lit ''p'') [] [NavigableString (lit ''t'')], new_tag]"
proof -
  have a: "\<not> snd (ensure_script (extract_comments page_commented))"
    by (simp add: flags_page_commented ensure_script_def tree_defs src_re_preview [simplified])
  have b: "\<not> snd (add_target_blank (extract_comments page_commented))"
    by (simp add: flags_page_commented add_target_blank_def tree_defs)
  have c: "\<not> snd (adjust_csp_meta unescape_apos (extract_comments page_commented))"
    by (simp add: flags_page_commented adjust_csp_meta_def tree_defs)
  have d: "list_ex is_comment (descendants page_commented)"
    "list_ex is_comment (descendants page_commented_link)"
    by (simp_all add: page_commented_def page_commented_link_def descendants_def)
  show ?thesis
    using comments_never_trigger_write [of page_commented unescape_apos soup, THEN conjunct2, THEN conjunct2, THEN conjunct2]
      comments_never_trigger_write [of page_commented_link unescape_apos
        "[Tag (lit ''p'') [] [NavigableString (lit ''t'')], new_tag]", THEN conjunct2, THEN conjunct2, THEN conjunct1]
      a b c d
    by (simp add: process_page_commented_link)
qed

section \<open>Reading a file: what is returned\<close>

text \<open>
  C8. \<^verbatim>\<open>read_file_smart\<close> should return a text for every file. With \<^verbatim>\<open>detect_encoding\<close>
  bound to \<^verbatim>\<open>charset_normalizer.from_bytes\<close> it does not: for bytes that are not UTF-8,
  line 69 calls \<^verbatim>\<open>get\<close> on the result, which has no such method, outside any
  \<^verbatim>\<open>try\<close>, and the \<^verbatim>\<open>AttributeError\<close> leaves the function.
\<close>

theorem from_bytes_result_has_no_get:
  "decode lib (lit ''utf-8'') raw = None \<Longrightarrow> detect_encoding lib = From_bytes \<Longrightarrow>
     read_file_smart lib raw = Inl AttributeError"
  by (simp add: read_file_smart_def)

theorem from_bytes_result_has_no_get_witness:
  "decode library_from_bytes (lit ''utf-8'') [0xFF] = None \<and>
   detect_encoding library_from_bytes = From_bytes \<and>
   read_file_smart library_from_bytes [0xFF] = Inl AttributeError"
proof -
  have a: "decode library_from_bytes (lit ''utf-8'') [0xFF] = None"
    by (simp add: library_from_bytes_def ascii_decode_def)
  have b: "detect_encoding library_from_bytes = From_bytes"
    by (simp add: library_from_bytes_def)
  show ?thesis using from_bytes_result_has_no_get [OF a b] a b by simp
qed

text \<open>
  With the other two bindings of \<^verbatim>\<open>detect_encoding\<close> a text is always returned: the
  strict UTF-8 decoding; else the decoding under the guessed encoding, when there is a
  guess, its confidence exceeds one half and the decoding succeeds; else the lossy one.
\<close>

lemma read_file_smart_tiers:
  "detect_encoding lib \<noteq> From_bytes \<Longrightarrow>
     read_file_smart lib raw =
       Inr (case decode lib (lit ''utf-8'') raw of
              Some text \<Rightarrow> text
            | None \<Rightarrow>
                (case detect_encoding lib of
                   Chardet_detect detect \<Rightarrow>
                     (case detect raw of
                        (Some enc, conf) \<Rightarrow>
                          (if enc \<noteq> [] \<and> conf > 1 / 2
                           then (case decode lib enc raw of
                                   Some text \<Rightarrow> text
                                 | None \<Rightarrow> decode_replace lib raw)
                           else decode_replace lib raw)
                      | (None, conf) \<Rightarrow> decode_replace lib raw)
                 | _ \<Rightarrow> decode_replace lib raw))"
  by (simp add: read_file_smart_def split: option.splits detector.splits prod.splits)

section \<open>The full transform run twice\<close>

text \<open>Each of the two operations on the body, run again on its own result, changes nothing.\<close>

lemma ensure_script_twice:
  "ensure_script (fst (ensure_script soup)) = (fst (ensure_script soup), False)"
proof (cases "list_ex is_preview_script (descendants soup)")
  case True
  then show ?thesis by (simp add: ensure_script_found)
next
  case False
  have "soup_find_all is_preview_script (fst (ensure_script soup)) = [new_tag]"
  proof (cases "soup_find (is_named (lit ''body'')) soup")
    case None
    with False show ?thesis by (rule ensure_script_root(2))
  next
    case (Some body)
    with False show ?thesis by (rule ensure_script_body(3))
  qed
  then have "list_ex is_preview_script (descendants (fst (ensure_script soup)))"
    by (auto simp: soup_find_all_def list_ex_iff filter_eq_Cons_iff)
  then show ?thesis by (rule ensure_script_found)
qed

lemma lacks_target_hardened: "\<not> lacks_target (map_attrs_node harden_anchor x)"
  by (cases x) (simp_all add: harden_anchor_def has_attr_def map_of_harden)

lemma add_target_blank_twice:
  "add_target_blank (fst (add_target_blank soup)) = (fst (add_target_blank soup), False)"
proof -
  have "\<not> list_ex lacks_target (concat (map nodes_of (map (map_attrs_node harden_anchor) soup)))"
    by (auto simp: list_ex_iff nodes_of_map_attrs lacks_target_hardened)
  then have "\<not> snd (add_target_blank (fst (add_target_blank soup)))"
    by (simp add: add_target_blank_def add_target_blank_eq)
  then show ?thesis by (rule add_target_blank_unchanged)
qed

text \<open>
  C1. Running the transform of one file twice should leave the second run with nothing to
  do. On \<^verbatim>\<open><body><a href="x">l</a></body>\<close> it does not: the first run injects the script
  and, because \<^verbatim>\<open>or\<close> then skips \<^verbatim>\<open>add_target_blank\<close>, leaves the link as it was; the
  second run finds the script, hardens the link, and writes the file again.
\<close>

theorem second_run_changes_again:
  "process_file unescape page_link = Updated page_link_once \<and>
   process_file unescape page_link_once = Updated page_link_twice \<and>
   page_link_twice \<noteq> page_link_once \<and>
   file_after unescape (file_after unescape page_link) \<noteq> file_after unescape page_link"
  by (simp add: file_after_def process_file_def extract_page_link adjust_body_page_link
      adjust_body_page_link_once no_meta_page_link_once no_meta_page_link_twice)
     (simp add: page_link_once_def page_link_twice_def)

text \<open>
  C2. One pass over \<^verbatim>\<open><body><a href="x">l</a></body>\<close> should harden the link and inject
  the script. Each operation on its own reports a change there, but \<^verbatim>\<open>adjust_body\<close>
  returns after the injection: the file is reported as changed and the link still has no
  \<^verbatim>\<open>target\<close>.
\<close>

theorem single_pass_leaves_link:
  "snd (ensure_script page_link) \<and> snd (add_target_blank page_link) \<and>
   adjust_body page_link = (page_link_once, True) \<and>
   soup_find_all lacks_target page_link_once =
     [Tag (lit ''a'') [(lit ''href'', lit ''x'')] [NavigableString (lit ''l'')]]"
  by (simp add: adjust_body_page_link ensure_script_page_link)
     (simp add: add_target_blank_def page_link_def page_link_once_def tree_defs)

end
